theory Spec2Isabelle
  imports Main
begin

section \<open>Data model\<close>

text \<open>
  The pickup-order server keeps four pieces of persistent state: \<^verbatim>\<open>orders.json\<close>,
  \<^verbatim>\<open>deleted_orders.json\<close>, \<^verbatim>\<open>audit_log.csv\<close> and the directory \<^verbatim>\<open>exports/\<close>.
  Every handler reads a whole file (\<^verbatim>\<open>getOrders\<close>, \<^verbatim>\<open>getDeletedOrders\<close>), mutates the
  parsed array and writes it back, so a handler is a function from a state to a response
  and a new state.

  Conventions of the embedding:
  \<^item> a request field or object property that may be \<^verbatim>\<open>undefined\<close> is an \<open>option\<close>, with
    \<open>None\<close> for \<^verbatim>\<open>undefined\<close>; \<^verbatim>\<open>JSON.stringify\<close> drops such properties and
    \<^verbatim>\<open>JSON.parse\<close> gives them back as \<^verbatim>\<open>undefined\<close>, so the round trip through the
    file is the identity on this representation. Request fields are strings or absent;
  \<^item> an instant (\<^verbatim>\<open>new Date()\<close>, and its ISO string, which parses back to the same
    instant) is the number of milliseconds since the epoch. All clock reads of one
    synchronous handler return the argument \<open>now\<close>;
  \<^item> strings are lists of characters. \<^verbatim>\<open>String.prototype.toLowerCase\<close> is a function of
    the language, not of this program: the search takes it as the parameter \<open>lower\<close>;
  \<^item> reads and writes of the two JSON files and of the audit log succeed (no
    \<^verbatim>\<open>StorageError\<close> path is modelled); a write of an export file may fail.
\<close>

datatype json =
    JNull
  | JBool bool
  | JNum int
  | JStr string
  | JArr "json list"
  | JObj "(string \<times> json) list"

text \<open>An element of \<^verbatim>\<open>order.approvals\<close>: \<^verbatim>\<open>{ staff, timestamp }\<close>.\<close>

record approval =
  a_staff :: "string option"
  a_timestamp :: int

text \<open>An element of \<^verbatim>\<open>order.status_history\<close>: \<^verbatim>\<open>{ status, timestamp, staff }\<close>.\<close>

record history_entry =
  h_status :: "string option"
  h_timestamp :: int
  h_staff :: "string option"

text \<open>
  An order object. The last three fields exist only on objects of the recycle bin:
  the delete handler sets them and the restore handler removes them with \<^verbatim>\<open>delete\<close>.
\<close>

record order =
  order_number :: string
  customer_name :: "string option"
  customer_phone :: "string option"
  items :: "json option"
  payment_method :: "string option"
  invoice_number :: string
  status :: "string option"
  created_at :: int
  created_by :: "string option"
  approvals :: "approval list"
  status_history :: "history_entry list"
  deleted_at :: "int option"
  deleted_by :: "string option"
  original_status :: "string option"

text \<open>One line of \<^verbatim>\<open>audit_log.csv\<close>, as \<^verbatim>\<open>logAudit\<close> composes it.\<close>

record audit_record =
  au_timestamp :: int
  au_action :: string
  au_order_id :: string
  au_staff :: string
  au_details :: string

text \<open>
  The content of one file of the directory \<^verbatim>\<open>exports/\<close>, as \<^verbatim>\<open>exportOrderData\<close>
  writes it: the properties of the order, \<^verbatim>\<open>exported_at\<close> and \<^verbatim>\<open>export_reason\<close>.
\<close>

record export_file =
  ex_order :: order
  ex_exported_at :: int
  ex_reason :: string

text \<open>
  What the handlers read from their host and never change. The local time zone is given
  by the two offset functions of the language definition: \<open>localTZA_utc t\<close> is the
  offset of local time from UTC at the instant \<open>t\<close> (\<^verbatim>\<open>LocalTZA(t, true)\<close>), and
  \<open>localTZA_local t\<close> is the offset when \<open>t\<close> is read as a local time
  (\<^verbatim>\<open>LocalTZA(t, false)\<close>), both in milliseconds. \<open>write_fails f\<close> tells whether
  \<^verbatim>\<open>fs.writeFileSync\<close> throws for the export file named \<open>f\<close>.
\<close>

record host_env =
  localTZA_utc :: "int \<Rightarrow> int"
  localTZA_local :: "int \<Rightarrow> int"
  write_fails :: "string \<Rightarrow> bool"

text \<open>
  The directory \<^verbatim>\<open>exports/\<close> is the list of its files, each name once, with their
  contents.
\<close>

record state =
  orders :: "order list"
  deleted_orders :: "order list"
  audit_log :: "audit_record list"
  exports :: "(string \<times> export_file) list"
  host :: host_env

text \<open>
  A host whose local time is UTC and on which every export can be written, and the state
  after \<^verbatim>\<open>initializeFiles\<close> on a fresh directory of that host.
\<close>

definition utc_host :: host_env where
  "utc_host =
     \<lparr>localTZA_utc = (\<lambda>t. 0), localTZA_local = (\<lambda>t. 0), write_fails = (\<lambda>f. False)\<rparr>"

definition empty_state :: state where
  "empty_state =
     \<lparr>orders = [], deleted_orders = [], audit_log = [], exports = [], host = utc_host\<rparr>"

text \<open>
  The failures of the handlers: HTTP 404 (\<^verbatim>\<open>Order not found\<close>), HTTP 400
  (\<^verbatim>\<open>Staff member already approved this order\<close>), and an uncaught \<^verbatim>\<open>TypeError\<close>
  (a method call on \<^verbatim>\<open>undefined\<close>). \<open>ValidationError\<close> is the failure the
  specification names for missing input; no handler of the source produces it.
\<close>

datatype error = NotFoundError | DuplicateApprovalError | ValidationError | TypeError

section \<open>JavaScript primitives\<close>

text \<open>Truthiness of a value that is a string or \<^verbatim>\<open>undefined\<close>.\<close>

fun truthy :: "string option \<Rightarrow> bool" where
  "truthy None = False"
| "truthy (Some s) = (s \<noteq> [])"

text \<open>\<^verbatim>\<open>a || b\<close> for a string default \<open>b\<close>.\<close>

definition or_default :: "string option \<Rightarrow> string \<Rightarrow> string" where
  "or_default a b = (case a of None \<Rightarrow> b | Some s \<Rightarrow> if s = [] then b else s)"

text \<open>Interpolation \<^verbatim>\<open>${x}\<close> in a template literal.\<close>

definition tmpl :: "string option \<Rightarrow> string" where
  "tmpl a = (case a of None \<Rightarrow> ''undefined'' | Some s \<Rightarrow> s)"

text \<open>\<^verbatim>\<open>Array.prototype.findIndex\<close>, with \<open>None\<close> for \<open>-1\<close>.\<close>

fun findIndex :: "('a \<Rightarrow> bool) \<Rightarrow> 'a list \<Rightarrow> nat option" where
  "findIndex P [] = None"
| "findIndex P (x # xs) = (if P x then Some 0 else map_option Suc (findIndex P xs))"

text \<open>The array left by \<^verbatim>\<open>xs.splice(i, 1)\<close>.\<close>

definition splice1 :: "nat \<Rightarrow> 'a list \<Rightarrow> 'a list" where
  "splice1 i xs = take i xs @ drop (Suc i) xs"

text \<open>\<^verbatim>\<open>String(n)\<close> for a non-negative integer, and \<^verbatim>\<open>padStart\<close>.\<close>

definition digit_char :: "nat \<Rightarrow> char" where
  "digit_char d = ''0123456789'' ! (d mod 10)"

fun String_nat :: "nat \<Rightarrow> string" where
  "String_nat n = (if n < 10 then [digit_char n] else String_nat (n div 10) @ [digit_char n])"

declare String_nat.simps [simp del]

definition padStart :: "nat \<Rightarrow> char \<Rightarrow> string \<Rightarrow> string" where
  "padStart k c s = replicate (k - length s) c @ s"

text \<open>
  \<^verbatim>\<open>s.startsWith(q)\<close> and \<^verbatim>\<open>s.includes(q)\<close> (the latter named \<open>includes_str\<close>, as
  the plain name is reserved in Isar).
\<close>

fun startsWith :: "string \<Rightarrow> string \<Rightarrow> bool" where
  "startsWith s [] = True"
| "startsWith [] (c # q) = False"
| "startsWith (d # s) (c # q) = (d = c \<and> startsWith s q)"

fun includes_str :: "string \<Rightarrow> string \<Rightarrow> bool" where
  "includes_str [] q = (q = [])"
| "includes_str (d # s) q = (startsWith (d # s) q \<or> includes_str s q)"

text \<open>
  The restriction of \<^verbatim>\<open>toLowerCase\<close> to strings of ASCII characters, on which it
  maps the letters \<^verbatim>\<open>A\<close> to \<^verbatim>\<open>Z\<close> to \<^verbatim>\<open>a\<close> to \<^verbatim>\<open>z\<close> and nothing else. It
  stands for \<open>lower\<close> in the examples, whose strings are all ASCII.
\<close>

definition lower_char :: "char \<Rightarrow> char" where
  "lower_char c =
     (case map_of (zip ''ABCDEFGHIJKLMNOPQRSTUVWXYZ'' ''abcdefghijklmnopqrstuvwxyz'') c of
        None \<Rightarrow> c
      | Some l \<Rightarrow> l)"

definition toLowerCase_ascii :: "string \<Rightarrow> string" where
  "toLowerCase_ascii s = map lower_char s"

text \<open>\<^verbatim>\<open>s.replace(/\D/g, '')\<close>: the decimal digits of \<open>s\<close>.\<close>

definition digitsOnly :: "string \<Rightarrow> string" where
  "digitsOnly s = filter (\<lambda>c. c \<in> set ''0123456789'') s"

text \<open>
  \<^verbatim>\<open>Date.prototype.toISOString\<close> for an instant in milliseconds since the epoch:
  \<^verbatim>\<open>YYYY-MM-DDTHH:mm:ss.sssZ\<close> in UTC, with the six-digit signed year outside the years
  0 to 9999. \<open>civil_from_days\<close> gives year, month and day of a day number in the
  proleptic Gregorian calendar. (Instants more than \<open>8.64 * 10^15\<close> ms from the epoch
  are no dates of the language; the clock never returns one.)
\<close>

definition civil_from_days :: "int \<Rightarrow> int \<times> int \<times> int" where
  "civil_from_days z0 =
     (let z = z0 + 719468;
          era = z div 146097;
          doe = z - era * 146097;
          yoe = (doe - doe div 1460 + doe div 36524 - doe div 146096) div 365;
          doy = doe - (365 * yoe + yoe div 4 - yoe div 100);
          mp = (5 * doy + 2) div 153;
          d = doy - (153 * mp + 2) div 5 + 1;
          m = (if mp < 10 then mp + 3 else mp - 9);
          y = yoe + era * 400 + (if m \<le> 2 then 1 else 0)
      in (y, m, d))"

definition pad_int :: "nat \<Rightarrow> int \<Rightarrow> string" where
  "pad_int k n = padStart k (CHR ''0'') (String_nat (nat n))"

definition year_string :: "int \<Rightarrow> string" where
  "year_string y =
     (if 0 \<le> y \<and> y \<le> 9999 then pad_int 4 y
      else (if y < 0 then ''-'' else ''+'') @ pad_int 6 (abs y))"

definition toISOString :: "int \<Rightarrow> string" where
  "toISOString t =
     (let day = t div 86400000;
          ms = t mod 86400000;
          (y, m, d) = civil_from_days day
      in year_string y @ ''-'' @ pad_int 2 m @ ''-'' @ pad_int 2 d @ ''T'' @
         pad_int 2 (ms div 3600000) @ '':'' @ pad_int 2 (ms div 60000 mod 60) @ '':'' @
         pad_int 2 (ms div 1000 mod 60) @ ''.'' @ pad_int 3 (ms mod 1000) @ ''Z'')"

text \<open>
  \<^verbatim>\<open>fs.writeFileSync(filepath, data)\<close> on a directory: a file of that name is
  overwritten, otherwise the file is added.
\<close>

fun writeFile :: "string \<Rightarrow> 'a \<Rightarrow> (string \<times> 'a) list \<Rightarrow> (string \<times> 'a) list" where
  "writeFile f data [] = [(f, data)]"
| "writeFile f data ((g, old) # files) =
     (if g = f then (f, data) # files else (g, old) # writeFile f data files)"

section \<open>Storage helpers\<close>

text \<open>
  \<^verbatim>\<open>generateOrderNumber\<close> of the server with the recycle bin:
  \<^verbatim>\<open>WHS-\<close> followed by \<^verbatim>\<open>orders.length + 1\<close> padded to three digits.
\<close>

definition generateOrderNumber :: "state \<Rightarrow> string" where
  "generateOrderNumber s =
     (let sequence = length (orders s) + 1;
          paddedSequence = padStart 3 (CHR ''0'') (String_nat sequence)
      in ''WHS-'' @ paddedSequence)"

text \<open>
  \<^verbatim>\<open>generateOrderNumber\<close> of \<^verbatim>\<open>wickramaerp/server.js\<close>, the date-coded variant; \<open>day\<close>
  and \<open>month\<close> are \<^verbatim>\<open>today.getDate()\<close> and \<^verbatim>\<open>today.getMonth() + 1\<close>.
\<close>

definition generateOrderNumber_dated :: "nat \<Rightarrow> nat \<Rightarrow> state \<Rightarrow> string" where
  "generateOrderNumber_dated day month s =
     (let dateCode = String_nat day @ padStart 2 (CHR ''0'') (String_nat month);
          todayCode = ''WHS-'' @ dateCode;
          todayOrders = filter (\<lambda>order. startsWith (order_number order) todayCode) (orders s);
          sequence = padStart 2 (CHR ''0'') (String_nat (length todayOrders + 1))
      in ''WHS-'' @ dateCode @ ''-'' @ sequence)"

text \<open>\<^verbatim>\<open>logAudit(action, orderId, staffName, details)\<close> appends one line.\<close>

definition logAudit :: "int \<Rightarrow> string \<Rightarrow> string \<Rightarrow> string \<Rightarrow> string \<Rightarrow> state \<Rightarrow> state" where
  "logAudit now action orderId staff details s =
     s\<lparr>audit_log := audit_log s @
        [\<lparr>au_timestamp = now, au_action = action, au_order_id = orderId,
          au_staff = staff, au_details = details\<rparr>]\<rparr>"

text \<open>
  \<^verbatim>\<open>exportOrderData(order)\<close>: the file name is \<^verbatim>\<open>order-\<close>, the order number,
  \<^verbatim>\<open>-\<close>, the ISO time stamp with every \<^verbatim>\<open>:\<close> and \<^verbatim>\<open>.\<close> replaced by \<^verbatim>\<open>-\<close>, and
  \<^verbatim>\<open>.json\<close>. The function returns the file name, or \<^verbatim>\<open>null\<close> (here \<open>None\<close>) from its
  \<^verbatim>\<open>catch\<close> branch when the write throws; nothing is written then.
\<close>

definition file_name :: "string \<Rightarrow> int \<Rightarrow> string" where
  "file_name orderNumber now =
     (let timestamp = map (\<lambda>c. if c = CHR '':'' \<or> c = CHR ''.'' then CHR ''-'' else c)
                        (toISOString now)
      in ''order-'' @ orderNumber @ ''-'' @ timestamp @ ''.json'')"

definition exportOrderData :: "int \<Rightarrow> order \<Rightarrow> state \<Rightarrow> string option \<times> state" where
  "exportOrderData now order s =
     (let filename = file_name (order_number order) now;
          exportData = \<lparr>ex_order = order, ex_exported_at = now,
                         ex_reason = ''permanent_deletion''\<rparr>
      in if write_fails (host s) filename then (None, s)
         else (Some filename, s\<lparr>exports := writeFile filename exportData (exports s)\<rparr>))"

section \<open>Order lifecycle handlers\<close>

text \<open>The body of \<^verbatim>\<open>POST /api/orders\<close>.\<close>

record create_request =
  customerName :: "string option"
  customerPhone :: "string option"
  req_items :: "json option"
  paymentMethod :: "string option"
  staffName :: "string option"

definition new_order :: "string \<Rightarrow> create_request \<Rightarrow> int \<Rightarrow> order" where
  "new_order orderNumber req now =
     \<lparr>order_number = orderNumber,
      customer_name = customerName req,
      customer_phone = customerPhone req,
      items = req_items req,
      payment_method = paymentMethod req,
      invoice_number = [],
      status = Some ''received'',
      created_at = now,
      created_by = staffName req,
      approvals = [],
      status_history =
        [\<lparr>h_status = Some ''received'', h_timestamp = now, h_staff = staffName req\<rparr>],
      deleted_at = None, deleted_by = None, original_status = None\<rparr>"

definition createOrder :: "create_request \<Rightarrow> int \<Rightarrow> state \<Rightarrow> (error + string) \<times> state" where
  "createOrder req now s =
     (let orderNumber = generateOrderNumber s;
          newOrder = new_order orderNumber req now;
          s1 = s\<lparr>orders := orders s @ [newOrder]\<rparr>;
          s2 = logAudit now ''ORDER_CREATED'' orderNumber (tmpl (staffName req))
                 (''Customer: '' @ tmpl (customerName req)) s1
      in (Inr orderNumber, s2))"

text \<open>The same handler in \<^verbatim>\<open>wickramaerp/server.js\<close>; only the numbering differs.\<close>

definition createOrder_dated ::
  "nat \<Rightarrow> nat \<Rightarrow> create_request \<Rightarrow> int \<Rightarrow> state \<Rightarrow> (error + string) \<times> state" where
  "createOrder_dated day month req now s =
     (let orderNumber = generateOrderNumber_dated day month s;
          newOrder = new_order orderNumber req now;
          s1 = s\<lparr>orders := orders s @ [newOrder]\<rparr>;
          s2 = logAudit now ''ORDER_CREATED'' orderNumber (tmpl (staffName req))
                 (''Customer: '' @ tmpl (customerName req)) s1
      in (Inr orderNumber, s2))"

text \<open>
  \<^verbatim>\<open>PUT /api/orders/:orderNumber/status\<close> with body \<^verbatim>\<open>{ status, staffName, invoiceNumber }\<close>.
  Both servers have the same handler.
\<close>

definition updateStatus ::
  "string \<Rightarrow> string option \<Rightarrow> string option \<Rightarrow> string option \<Rightarrow> int \<Rightarrow> state
     \<Rightarrow> (error + unit) \<times> state" where
  "updateStatus orderNumber new_status staff invoiceNumber now s =
     (case findIndex (\<lambda>x. order_number x = orderNumber) (orders s) of
        None \<Rightarrow> (Inl NotFoundError, s)
      | Some orderIndex \<Rightarrow>
          let order0 = orders s ! orderIndex;
              order1 = order0\<lparr>status := new_status\<rparr>;
              order2 = (if truthy invoiceNumber
                        then order1\<lparr>invoice_number := the invoiceNumber\<rparr> else order1);
              order3 = order2\<lparr>status_history := status_history order2 @
                         [\<lparr>h_status = new_status, h_timestamp = now, h_staff = staff\<rparr>]\<rparr>;
              s1 = s\<lparr>orders := (orders s)[orderIndex := order3]\<rparr>;
              s2 = logAudit now ''STATUS_UPDATE'' orderNumber (tmpl staff)
                     (''Status: '' @ tmpl new_status) s1
          in (Inr (), s2))"

text \<open>
  \<^verbatim>\<open>PUT /api/orders/:orderNumber/approve\<close> with body \<^verbatim>\<open>{ staffName }\<close>; the response
  carries \<^verbatim>\<open>order.approvals.length\<close>. Both servers have the same handler.
\<close>

definition addApproval ::
  "string \<Rightarrow> string option \<Rightarrow> int \<Rightarrow> state \<Rightarrow> (error + nat) \<times> state" where
  "addApproval orderNumber staff now s =
     (case findIndex (\<lambda>x. order_number x = orderNumber) (orders s) of
        None \<Rightarrow> (Inl NotFoundError, s)
      | Some orderIndex \<Rightarrow>
          let order0 = orders s ! orderIndex in
          if find (\<lambda>a. a_staff a = staff) (approvals order0) \<noteq> None
          then (Inl DuplicateApprovalError, s)
          else
            let order1 = order0\<lparr>approvals := approvals order0 @
                           [\<lparr>a_staff = staff, a_timestamp = now\<rparr>]\<rparr>;
                order2 = (if length (approvals order1) \<ge> 3 \<and> status order1 = Some ''received''
                          then order1\<lparr>status := Some ''approved'',
                                      status_history := status_history order1 @
                                        [\<lparr>h_status = Some ''approved'', h_timestamp = now,
                                          h_staff = Some ''SYSTEM''\<rparr>]\<rparr>
                          else order1);
                s1 = s\<lparr>orders := (orders s)[orderIndex := order2]\<rparr>;
                s2 = logAudit now ''APPROVAL_ADDED'' orderNumber (tmpl staff)
                       (''Approval '' @ String_nat (length (approvals order2)) @ ''/3'') s1
            in (Inr (length (approvals order2)), s2))"

section \<open>Recycle bin handlers\<close>

text \<open>
  \<^verbatim>\<open>DELETE /api/orders/:orderNumber\<close>: the soft delete. \<open>staff\<close> is
  \<^verbatim>\<open>req.body.staffName\<close>; the response carries \<^verbatim>\<open>deletedOrders.length\<close>.
\<close>

definition softDelete ::
  "string \<Rightarrow> string option \<Rightarrow> int \<Rightarrow> state \<Rightarrow> (error + nat) \<times> state" where
  "softDelete orderNumber staff now s =
     (case findIndex (\<lambda>x. order_number x = orderNumber) (orders s) of
        None \<Rightarrow> (Inl NotFoundError, s)
      | Some orderIndex \<Rightarrow>
          let spliced = orders s ! orderIndex;
              remaining = splice1 orderIndex (orders s);
              orderToDelete = spliced\<lparr>deleted_at := Some now,
                                deleted_by := Some (or_default staff ''manager''),
                                original_status := status spliced,
                                status := Some ''deleted''\<rparr>;
              deletedOrders = deleted_orders s @ [orderToDelete];
              s1 = s\<lparr>orders := remaining, deleted_orders := deletedOrders\<rparr>;
              s2 = logAudit now ''ORDER_MOVED_TO_RECYCLE'' orderNumber
                     (or_default staff ''manager'')
                     (''Order moved to recycle bin: '' @ tmpl (customer_name orderToDelete)) s1
          in (Inr (length deletedOrders), s2))"

text \<open>\<^verbatim>\<open>POST /api/orders/:orderNumber/restore\<close>.\<close>

definition restore ::
  "string \<Rightarrow> string option \<Rightarrow> int \<Rightarrow> state \<Rightarrow> (error + unit) \<times> state" where
  "restore orderNumber staff now s =
     (case findIndex (\<lambda>x. order_number x = orderNumber) (deleted_orders s) of
        None \<Rightarrow> (Inl NotFoundError, s)
      | Some orderIndex \<Rightarrow>
          let spliced = deleted_orders s ! orderIndex;
              deletedOrders = splice1 orderIndex (deleted_orders s);
              orderToRestore = spliced\<lparr>status := Some (or_default (original_status spliced) ''received''),
                                 deleted_at := None,
                                 deleted_by := None,
                                 original_status := None\<rparr>;
              s1 = s\<lparr>orders := orders s @ [orderToRestore], deleted_orders := deletedOrders\<rparr>;
              s2 = logAudit now ''ORDER_RESTORED'' orderNumber (or_default staff ''manager'')
                     (''Order restored from recycle bin: '' @ tmpl (customer_name orderToRestore)) s1
          in (Inr (), s2))"

text \<open>
  \<^verbatim>\<open>DELETE /api/deleted-orders/:orderNumber\<close>: export, then remove from the bin; a
  failed export does not stop the removal.
\<close>

definition permanentlyDelete ::
  "string \<Rightarrow> string option \<Rightarrow> int \<Rightarrow> state \<Rightarrow> (error + string option) \<times> state" where
  "permanentlyDelete orderNumber staff now s =
     (case findIndex (\<lambda>x. order_number x = orderNumber) (deleted_orders s) of
        None \<Rightarrow> (Inl NotFoundError, s)
      | Some orderIndex \<Rightarrow>
          let orderToPermanentlyDelete = deleted_orders s ! orderIndex;
              deletedOrders = splice1 orderIndex (deleted_orders s);
              (exportFilename, s1) = exportOrderData now orderToPermanentlyDelete s;
              s2 = s1\<lparr>deleted_orders := deletedOrders\<rparr>;
              s3 = logAudit now ''ORDER_PERMANENTLY_DELETED'' orderNumber
                     (or_default staff ''manager'')
                     (''Order permanently deleted. Exported to: '' @
                        or_default exportFilename ''export failed'') s2
          in (Inr exportFilename, s3))"

text \<open>
  \<^verbatim>\<open>sevenDaysAgo\<close> in \<^verbatim>\<open>autoCleanupDeletedOrders\<close>: \<^verbatim>\<open>new Date()\<close> followed by
  \<^verbatim>\<open>setDate(getDate() - 7)\<close>. \<^verbatim>\<open>setDate\<close> works on the local time of the instant,
  moves its day back by seven with the time within the day unchanged, and converts the
  result, read as a local time, back to an instant.
\<close>

definition sevenDaysAgo :: "host_env \<Rightarrow> int \<Rightarrow> int" where
  "sevenDaysAgo h now =
     (let t = now + localTZA_utc h now;
          newDate = t - 7 * 86400000
      in newDate - localTZA_local h newDate)"

text \<open>
  The test \<^verbatim>\<open>deletedAt > sevenDaysAgo\<close> of the loop; an entry without
  \<^verbatim>\<open>deleted_at\<close> gives an invalid date, for which the comparison is false.
\<close>

definition keeps :: "int \<Rightarrow> order \<Rightarrow> bool" where
  "keeps cutoff order =
     (case deleted_at order of None \<Rightarrow> False | Some deletedAt \<Rightarrow> deletedAt > cutoff)"

text \<open>
  The \<^verbatim>\<open>forEach\<close> loop, with its accumulators \<^verbatim>\<open>toKeep\<close> and \<^verbatim>\<open>cleanedCount\<close> and
  the state its calls to \<^verbatim>\<open>exportOrderData\<close> and \<^verbatim>\<open>logAudit\<close> change.
\<close>

fun cleanup_loop ::
  "int \<Rightarrow> int \<Rightarrow> order list \<Rightarrow> order list \<times> nat \<times> state \<Rightarrow> order list \<times> nat \<times> state" where
  "cleanup_loop now cutoff [] acc = acc"
| "cleanup_loop now cutoff (order # rest) (toKeep, cleanedCount, s) =
     (if keeps cutoff order
      then cleanup_loop now cutoff rest (toKeep @ [order], cleanedCount, s)
      else cleanup_loop now cutoff rest
             (toKeep, cleanedCount + 1,
              logAudit now ''AUTO_CLEANUP'' (order_number order) ''SYSTEM'' ''7-day auto cleanup''
                (snd (exportOrderData now order s))))"

definition autoCleanupDeletedOrders :: "int \<Rightarrow> state \<Rightarrow> state" where
  "autoCleanupDeletedOrders now s =
     (case cleanup_loop now (sevenDaysAgo (host s) now) (deleted_orders s) ([], 0, s) of
        (toKeep, cleanedCount, s1) \<Rightarrow>
          if cleanedCount > 0 then s1\<lparr>deleted_orders := toKeep\<rparr> else s1)"

section \<open>Search\<close>

text \<open>
  The predicate of the first \<^verbatim>\<open>filter\<close> in \<^verbatim>\<open>GET /api/search\<close>; \<open>lower\<close> is
  \<^verbatim>\<open>toLowerCase\<close>. Calling \<^verbatim>\<open>toLowerCase\<close> or \<^verbatim>\<open>includes\<close> on a missing property
  throws; \<^verbatim>\<open>||\<close> evaluates left to right and stops at the first true disjunct.
\<close>

definition search_test :: "(string \<Rightarrow> string) \<Rightarrow> string \<Rightarrow> order \<Rightarrow> error + bool" where
  "search_test lower q order =
     (case customer_name order of
        None \<Rightarrow> Inl TypeError
      | Some name \<Rightarrow>
          if includes_str (lower name) (lower q) then Inr True
          else if includes_str (lower (order_number order)) (lower q) then Inr True
          else (case customer_phone order of
                  None \<Rightarrow> Inl TypeError
                | Some phone \<Rightarrow> Inr (includes_str phone q)))"

text \<open>\<^verbatim>\<open>Array.prototype.filter\<close> with a callback that may throw.\<close>

fun filter_throwing :: "('a \<Rightarrow> error + bool) \<Rightarrow> 'a list \<Rightarrow> error + 'a list" where
  "filter_throwing P [] = Inr []"
| "filter_throwing P (x # xs) =
     (case P x of
        Inl e \<Rightarrow> Inl e
      | Inr b \<Rightarrow> (case filter_throwing P xs of
                    Inl e \<Rightarrow> Inl e
                  | Inr ys \<Rightarrow> Inr (if b then x # ys else ys)))"

text \<open>\<^verbatim>\<open>GET /api/search\<close> with query parameters \<^verbatim>\<open>q\<close> and \<^verbatim>\<open>status\<close>.\<close>

definition searchOrders ::
  "(string \<Rightarrow> string) \<Rightarrow> string option \<Rightarrow> string option \<Rightarrow> state \<Rightarrow> error + order list" where
  "searchOrders lower q status_param s =
     (case (if truthy q then filter_throwing (search_test lower (the q)) (orders s)
            else Inr (orders s)) of
        Inl e \<Rightarrow> Inl e
      | Inr found \<Rightarrow>
          if truthy status_param \<and> status_param \<noteq> Some ''all''
          then Inr (filter (\<lambda>order. status order = status_param) found)
          else Inr found)"

section \<open>Sequences of requests\<close>

datatype op =
    OpCreate create_request int
  | OpUpdateStatus string "string option" "string option" "string option" int
  | OpApprove string "string option" int
  | OpSoftDelete string "string option" int
  | OpRestore string "string option" int
  | OpPermanentlyDelete string "string option" int
  | OpAutoCleanup int

fun apply_op :: "op \<Rightarrow> state \<Rightarrow> state" where
  "apply_op (OpCreate req now) s = snd (createOrder req now s)"
| "apply_op (OpUpdateStatus n st staff invoice now) s = snd (updateStatus n st staff invoice now s)"
| "apply_op (OpApprove n staff now) s = snd (addApproval n staff now s)"
| "apply_op (OpSoftDelete n staff now) s = snd (softDelete n staff now s)"
| "apply_op (OpRestore n staff now) s = snd (restore n staff now s)"
| "apply_op (OpPermanentlyDelete n staff now) s = snd (permanentlyDelete n staff now s)"
| "apply_op (OpAutoCleanup now) s = autoCleanupDeletedOrders now s"

definition run :: "op list \<Rightarrow> state \<Rightarrow> state" where
  "run ops s = fold apply_op ops s"

text \<open>A run of approve requests for one order: pairs of staff name and instant.\<close>

definition approve_all :: "string \<Rightarrow> (string option \<times> int) list \<Rightarrow> state \<Rightarrow> state" where
  "approve_all n later s = fold (\<lambda>(staff, now) s'. snd (addApproval n staff now s')) later s"

text \<open>
  The two stores share no order number; and the requests of the recycle bin (soft delete,
  restore, permanent delete).
\<close>

definition stores_disjoint :: "state \<Rightarrow> bool" where
  "stores_disjoint s =
     (set (map order_number (orders s)) \<inter> set (map order_number (deleted_orders s)) = {})"

fun recycle_op :: "op \<Rightarrow> bool" where
  "recycle_op (OpSoftDelete n staff now) = True"
| "recycle_op (OpRestore n staff now) = True"
| "recycle_op (OpPermanentlyDelete n staff now) = True"
| "recycle_op other = False"

text \<open>No order number occurs twice in the two stores taken together.\<close>

definition numbers_distinct :: "state \<Rightarrow> bool" where
  "numbers_distinct s = distinct (map order_number (orders s @ deleted_orders s))"

text \<open>
  The condition of the search filter as a predicate on orders that have a name and a
  phone, where evaluating it cannot throw.
\<close>

definition search_match :: "(string \<Rightarrow> string) \<Rightarrow> string \<Rightarrow> order \<Rightarrow> bool" where
  "search_match lower q order =
     ((case customer_name order of
         None \<Rightarrow> False
       | Some name \<Rightarrow> includes_str (lower name) (lower q)) \<or>
      includes_str (lower (order_number order)) (lower q) \<or>
      (case customer_phone order of
         None \<Rightarrow> False
       | Some phone \<Rightarrow> includes_str phone q))"

text \<open>
  The match the specification describes for the search, for comparison with
  \<open>search_match\<close>: the query is a case-insensitive substring of the customer name or
  of the order number, or a substring of the phone, the phone match also succeeding when
  the digits of the query are a substring of the digits of the phone.
\<close>

definition spec_search_match :: "(string \<Rightarrow> string) \<Rightarrow> string \<Rightarrow> order \<Rightarrow> bool" where
  "spec_search_match lower q order =
     ((case customer_name order of
         None \<Rightarrow> False
       | Some name \<Rightarrow> includes_str (lower name) (lower q)) \<or>
      includes_str (lower (order_number order)) (lower q) \<or>
      (case customer_phone order of
         None \<Rightarrow> False
       | Some phone \<Rightarrow>
           includes_str phone q \<or> includes_str (digitsOnly phone) (digitsOnly q)))"

text \<open>
  The directory \<^verbatim>\<open>exports/\<close> after the export of one order at the instant \<open>now\<close>:
  unchanged when the write fails, and otherwise with the file of that name holding the
  order, the instant and the reason \<^verbatim>\<open>permanent_deletion\<close>.
\<close>

definition write_export ::
  "host_env \<Rightarrow> int \<Rightarrow> (string \<times> export_file) list \<Rightarrow> order \<Rightarrow> (string \<times> export_file) list" where
  "write_export h now files e =
     (if write_fails h (file_name (order_number e) now) then files
      else writeFile (file_name (order_number e) now)
             \<lparr>ex_order = e, ex_exported_at = now, ex_reason = ''permanent_deletion''\<rparr> files)"

text \<open>
  \<open>binned_by op s e\<close>: the request \<open>op\<close> is a soft delete that finds its order in
  the state \<open>s\<close>, and \<open>e\<close> is that order with \<^verbatim>\<open>deleted_at\<close>, \<^verbatim>\<open>deleted_by\<close>, its
  status saved in \<^verbatim>\<open>original_status\<close> and its status overwritten with \<^verbatim>\<open>deleted\<close>.
\<close>

definition binned_by :: "op \<Rightarrow> state \<Rightarrow> order \<Rightarrow> bool" where
  "binned_by op s e =
     (case op of
        OpSoftDelete n staff now \<Rightarrow>
          (case findIndex (\<lambda>x. order_number x = n) (orders s) of
             None \<Rightarrow> False
           | Some i \<Rightarrow>
               e = (orders s ! i)\<lparr>deleted_at := Some now,
                      deleted_by := Some (or_default staff ''manager''),
                      original_status := status (orders s ! i),
                      status := Some ''deleted''\<rparr>)
      | _ \<Rightarrow> False)"

section \<open>Example requests and states\<close>

text \<open>The request of the specification's scenario, and the stores a few requests leave.\<close>

definition example_request :: create_request where
  "example_request =
     \<lparr>customerName = Some ''Jane'', customerPhone = Some ''0771234567'',
      req_items = Some (JArr [JObj [(''sku'', JStr ''X1''), (''qty'', JNum 2)]]),
      paymentMethod = Some ''cash'', staffName = Some ''staff1''\<rparr>"

definition one_order_state :: state where
  "one_order_state = run [OpCreate example_request 0] empty_state"

definition one_approval_state :: state where
  "one_approval_state =
     run [OpCreate example_request 0, OpApprove ''WHS-001'' (Some ''staff1'') 1] empty_state"

definition two_approvals_state :: state where
  "two_approvals_state =
     run [OpCreate example_request 0, OpApprove ''WHS-001'' (Some ''staff1'') 1,
          OpApprove ''WHS-001'' (Some ''staff2'') 2] empty_state"

definition promoted_state :: state where
  "promoted_state = run [OpApprove ''WHS-001'' (Some ''staff3'') 3] two_approvals_state"

definition reset_state :: state where
  "reset_state =
     run [OpUpdateStatus ''WHS-001'' (Some ''received'') (Some ''manager'') None 4] promoted_state"

definition empty_request :: create_request where
  "empty_request =
     \<lparr>customerName = None, customerPhone = None, req_items = None,
      paymentMethod = None, staffName = None\<rparr>"

definition blank_status_state :: state where
  "blank_status_state =
     run [OpCreate example_request 0,
          OpUpdateStatus ''WHS-001'' (Some []) (Some ''staff1'') None 1] empty_state"

definition duplicate_number_state :: state where
  "duplicate_number_state =
     run [OpCreate example_request 0, OpCreate example_request 1,
          OpSoftDelete ''WHS-001'' (Some ''manager'') 2, OpCreate example_request 3] empty_state"

text \<open>
  A bin with one entry deleted at instant 0 and one deleted five days later; instant
  691200000 is eight days after 0.
\<close>

definition bin_state :: state where
  "bin_state =
     run [OpCreate example_request 0, OpCreate example_request 1,
          OpSoftDelete ''WHS-001'' (Some ''manager'') 0,
          OpSoftDelete ''WHS-002'' (Some ''manager'') 432000000] empty_state"

text \<open>
  States in which an order number has been issued twice: once to an order now in the bin
  and again to an order of the order store; and the same with both orders in the bin.
\<close>

definition reused_number_state :: state where
  "reused_number_state =
     run [OpCreate example_request 0, OpSoftDelete ''WHS-001'' (Some ''manager'') 1,
          OpCreate example_request 2] empty_state"

definition duplicate_bin_state :: state where
  "duplicate_bin_state =
     run [OpSoftDelete ''WHS-001'' (Some ''manager'') 3] reused_number_state"

definition two_orders_state :: state where
  "two_orders_state =
     run [OpCreate example_request 0, OpCreate example_request 1,
          OpUpdateStatus ''WHS-001'' (Some ''packed'') (Some ''staff2'') (Some ''INV-7'') 2]
       empty_state"



text \<open>The bin of \<open>bin_state\<close> on a host on which no export can be written.\<close>

definition read_only_bin_state :: state where
  "read_only_bin_state = bin_state\<lparr>host := utc_host\<lparr>write_fails := (\<lambda>f. True)\<rparr>\<rparr>"

section \<open>Properties of the primitives\<close>

lemma findIndex_Some:
  "findIndex P xs = Some i \<Longrightarrow> i < length xs \<and> P (xs ! i) \<and> (\<forall>j<i. \<not> P (xs ! j))"
proof (induction xs arbitrary: i)
  case Nil
  then show ?case by simp
next
  case (Cons x xs)
  show ?case
  proof (cases "P x")
    case True
    with Cons.prems show ?thesis by simp
  next
    case False
    with Cons.prems obtain k where k: "findIndex P xs = Some k" "i = Suc k"
      by auto
    from Cons.IH [OF k(1)] False k(2) show ?thesis
      by (auto simp: nth_Cons split: nat.splits)
  qed
qed

lemma findIndex_None: "findIndex P xs = None \<longleftrightarrow> (\<forall>x\<in>set xs. \<not> P x)"
  by (induction xs) auto

lemma findIndex_update:
  "findIndex P xs = Some i \<Longrightarrow> P y \<Longrightarrow> findIndex P (xs[i := y]) = Some i"
proof (induction xs arbitrary: i)
  case Nil
  then show ?case by simp
next
  case (Cons x xs)
  then show ?case
    by (cases "P x") (auto split: if_splits)
qed

lemma addApproval_found:
  assumes "findIndex (\<lambda>x. order_number x = n) (orders s) = Some i"
  shows "addApproval n staff now s =
     (let order0 = orders s ! i in
      if find (\<lambda>a. a_staff a = staff) (approvals order0) \<noteq> None
      then (Inl DuplicateApprovalError, s)
      else
        let order1 = order0\<lparr>approvals := approvals order0 @ [\<lparr>a_staff = staff, a_timestamp = now\<rparr>]\<rparr>;
            order2 = (if length (approvals order1) \<ge> 3 \<and> status order1 = Some ''received''
                      then order1\<lparr>status := Some ''approved'',
                                  status_history := status_history order1 @
                                    [\<lparr>h_status = Some ''approved'', h_timestamp = now,
                                      h_staff = Some ''SYSTEM''\<rparr>]\<rparr>
                      else order1)
        in (Inr (length (approvals order2)),
            logAudit now ''APPROVAL_ADDED'' n (tmpl staff)
              (''Approval '' @ String_nat (length (approvals order2)) @ ''/3'')
              (s\<lparr>orders := (orders s)[i := order2]\<rparr>)))"
  using assms by (simp add: addApproval_def Let_def)

lemma orders_logAudit [simp]: "orders (logAudit now a n st d s) = orders s"
  by (simp add: logAudit_def)

lemma deleted_logAudit [simp]: "deleted_orders (logAudit now a n st d s) = deleted_orders s"
  by (simp add: logAudit_def)

section \<open>Approvals\<close>

text \<open>
  C6. An approval by a staff member who already approved the order is refused with
  \<open>DuplicateApprovalError\<close> and the whole state, hence the order's approvals, status
  and history, stays as it was; an approval by a staff member not yet among the approvals
  is appended, the count grows by exactly one and the response carries the new count.
\<close>

theorem addApproval_duplicate_rejected:
  assumes "findIndex (\<lambda>x. order_number x = n) (orders s) = Some i"
  shows "((\<exists>a\<in>set (approvals (orders s ! i)). a_staff a = staff) \<longrightarrow>
            addApproval n staff now s = (Inl DuplicateApprovalError, s)) \<and>
         ((\<forall>a\<in>set (approvals (orders s ! i)). a_staff a \<noteq> staff) \<longrightarrow>
            (\<exists>s'. addApproval n staff now s =
                     (Inr (length (approvals (orders s ! i)) + 1), s') \<and>
                   approvals (orders s' ! i) =
                     approvals (orders s ! i) @ [\<lparr>a_staff = staff, a_timestamp = now\<rparr>] \<and>
                   length (approvals (orders s' ! i)) = length (approvals (orders s ! i)) + 1))"
proof -
  from assms have i: "i < length (orders s)"
    by (simp add: findIndex_Some)
  show ?thesis
  proof (intro conjI impI)
    assume "\<exists>a\<in>set (approvals (orders s ! i)). a_staff a = staff"
    then have "find (\<lambda>a. a_staff a = staff) (approvals (orders s ! i)) \<noteq> None"
      by (auto simp: find_None_iff)
    then show "addApproval n staff now s = (Inl DuplicateApprovalError, s)"
      by (simp add: addApproval_found [OF assms])
  next
    assume "\<forall>a\<in>set (approvals (orders s ! i)). a_staff a \<noteq> staff"
    then have "find (\<lambda>a. a_staff a = staff) (approvals (orders s ! i)) = None"
      by (auto simp: find_None_iff)
    with i show "\<exists>s'. addApproval n staff now s =
                     (Inr (length (approvals (orders s ! i)) + 1), s') \<and>
                   approvals (orders s' ! i) =
                     approvals (orders s ! i) @ [\<lparr>a_staff = staff, a_timestamp = now\<rparr>] \<and>
                   length (approvals (orders s' ! i)) = length (approvals (orders s ! i)) + 1"
      by (simp add: addApproval_found [OF assms] Let_def)
  qed
qed

theorem addApproval_duplicate_rejected_witness:
  "findIndex (\<lambda>x. order_number x = ''WHS-001'') (orders one_approval_state) = Some 0 \<and>
   addApproval ''WHS-001'' (Some ''staff1'') 5 one_approval_state =
     (Inl DuplicateApprovalError, one_approval_state) \<and>
   (\<exists>s'. addApproval ''WHS-001'' (Some ''staff2'') 5 one_approval_state = (Inr 2, s') \<and>
         length (approvals (orders s' ! 0)) = 2)"
proof -
  have h: "findIndex (\<lambda>x. order_number x = ''WHS-001'') (orders one_approval_state) = Some 0"
    by code_simp
  have dup: "\<exists>a\<in>set (approvals (orders one_approval_state ! 0)). a_staff a = Some ''staff1''"
    by code_simp
  have new: "\<forall>a\<in>set (approvals (orders one_approval_state ! 0)). a_staff a \<noteq> Some ''staff2''"
    by code_simp
  have len: "length (approvals (orders one_approval_state ! 0)) = 1"
    by code_simp
  from addApproval_duplicate_rejected [OF h, of "Some ''staff1''" 5] dup
  have A: "addApproval ''WHS-001'' (Some ''staff1'') 5 one_approval_state =
             (Inl DuplicateApprovalError, one_approval_state)"
    by blast
  from addApproval_duplicate_rejected [OF h, of "Some ''staff2''" 5] new len
  have B: "\<exists>s'. addApproval ''WHS-001'' (Some ''staff2'') 5 one_approval_state = (Inr 2, s') \<and>
                length (approvals (orders s' ! 0)) = 2"
    by auto
  from h A B show ?thesis by blast
qed

lemma addApproval_not_received:
  assumes "findIndex (\<lambda>x. order_number x = n) (orders s) = Some i"
    and "status (orders s ! i) \<noteq> Some ''received''"
  shows "findIndex (\<lambda>x. order_number x = n) (orders (snd (addApproval n staff now s))) = Some i \<and>
         status (orders (snd (addApproval n staff now s)) ! i) = status (orders s ! i) \<and>
         status_history (orders (snd (addApproval n staff now s)) ! i) =
           status_history (orders s ! i)"
proof -
  have i: "i < length (orders s)" and n: "order_number (orders s ! i) = n"
    using findIndex_Some [OF assms(1)] by simp_all
  show ?thesis
  proof (cases "find (\<lambda>a. a_staff a = staff) (approvals (orders s ! i)) = None")
    case True
    with assms i n show ?thesis
      by (simp add: addApproval_found [OF assms(1)] Let_def findIndex_update)
  next
    case False
    with assms show ?thesis
      by (simp add: addApproval_found [OF assms(1)] Let_def)
  qed
qed

lemma approve_all_not_received:
  assumes "findIndex (\<lambda>x. order_number x = n) (orders s) = Some i"
    and "status (orders s ! i) \<noteq> Some ''received''"
  shows "findIndex (\<lambda>x. order_number x = n) (orders (approve_all n later s)) = Some i \<and>
         status (orders (approve_all n later s) ! i) = status (orders s ! i) \<and>
         status_history (orders (approve_all n later s) ! i) = status_history (orders s ! i)"
  using assms
proof (induction later arbitrary: s)
  case Nil
  then show ?case by (simp add: approve_all_def)
next
  case (Cons p later)
  obtain staff now where p: "p = (staff, now)" by (cases p)
  let ?s1 = "snd (addApproval n staff now s)"
  from addApproval_not_received [OF Cons.prems, of staff now]
  have 1: "findIndex (\<lambda>x. order_number x = n) (orders ?s1) = Some i"
    and 2: "status (orders ?s1 ! i) = status (orders s ! i)"
    and 3: "status_history (orders ?s1 ! i) = status_history (orders s ! i)"
    by simp_all
  from 2 Cons.prems(2) have 4: "status (orders ?s1 ! i) \<noteq> Some ''received''" by simp
  have "approve_all n (p # later) s = approve_all n later ?s1"
    by (simp add: approve_all_def p)
  with Cons.IH [OF 1 4] 2 3 show ?case by simp
qed

text \<open>
  C2. The handler promotes on \<^verbatim>\<open>approvals.length >= 3 && status === 'received'\<close>.
  A successful approval returns the new approval count. When it brings the count to three
  or more while the status is \<^verbatim>\<open>received\<close>, the status becomes \<^verbatim>\<open>approved\<close> and
  exactly one \<^verbatim>\<open>SYSTEM\<close> entry is appended to the history; otherwise status and history
  stay as they are. Once the status is not \<^verbatim>\<open>received\<close>, no run of later approvals of
  that order changes its status or its history.
\<close>

theorem addApproval_promotion:
  assumes "findIndex (\<lambda>x. order_number x = n) (orders s) = Some i"
    and "\<forall>a\<in>set (approvals (orders s ! i)). a_staff a \<noteq> staff"
  shows "\<exists>s'. addApproval n staff now s = (Inr (length (approvals (orders s ! i)) + 1), s') \<and>
           length (approvals (orders s' ! i)) = length (approvals (orders s ! i)) + 1 \<and>
           (length (approvals (orders s ! i)) + 1 \<ge> 3 \<and> status (orders s ! i) = Some ''received'' \<longrightarrow>
              status (orders s' ! i) = Some ''approved'' \<and>
              status_history (orders s' ! i) =
                status_history (orders s ! i) @
                  [\<lparr>h_status = Some ''approved'', h_timestamp = now, h_staff = Some ''SYSTEM''\<rparr>]) \<and>
           (\<not> (length (approvals (orders s ! i)) + 1 \<ge> 3 \<and> status (orders s ! i) = Some ''received'') \<longrightarrow>
              status (orders s' ! i) = status (orders s ! i) \<and>
              status_history (orders s' ! i) = status_history (orders s ! i)) \<and>
           (status (orders s' ! i) \<noteq> Some ''received'' \<longrightarrow>
              (\<forall>later. status (orders (approve_all n later s') ! i) = status (orders s' ! i) \<and>
                       status_history (orders (approve_all n later s') ! i) =
                         status_history (orders s' ! i)))"
proof -
  have i: "i < length (orders s)" and n: "order_number (orders s ! i) = n"
    using findIndex_Some [OF assms(1)] by simp_all
  from assms(2) have nf: "find (\<lambda>a. a_staff a = staff) (approvals (orders s ! i)) = None"
    by (auto simp: find_None_iff)
  let ?s' = "snd (addApproval n staff now s)"
  have r: "addApproval n staff now s = (Inr (length (approvals (orders s ! i)) + 1), ?s')"
    using nf by (simp add: addApproval_found [OF assms(1)] Let_def)
  have len: "length (approvals (orders ?s' ! i)) = length (approvals (orders s ! i)) + 1"
    using nf i by (simp add: addApproval_found [OF assms(1)] Let_def)
  have yes: "length (approvals (orders s ! i)) + 1 \<ge> 3 \<and> status (orders s ! i) = Some ''received'' \<longrightarrow>
              status (orders ?s' ! i) = Some ''approved'' \<and>
              status_history (orders ?s' ! i) =
                status_history (orders s ! i) @
                  [\<lparr>h_status = Some ''approved'', h_timestamp = now, h_staff = Some ''SYSTEM''\<rparr>]"
    using nf i by (simp add: addApproval_found [OF assms(1)] Let_def)
  have no: "\<not> (length (approvals (orders s ! i)) + 1 \<ge> 3 \<and> status (orders s ! i) = Some ''received'') \<longrightarrow>
              status (orders ?s' ! i) = status (orders s ! i) \<and>
              status_history (orders ?s' ! i) = status_history (orders s ! i)"
    using nf i by (auto simp add: addApproval_found [OF assms(1)] Let_def)
  have idx: "findIndex (\<lambda>x. order_number x = n) (orders ?s') = Some i"
    using nf i n assms(1)
    by (simp add: addApproval_found [OF assms(1)] Let_def findIndex_update)
  have later: "status (orders ?s' ! i) \<noteq> Some ''received'' \<longrightarrow>
              (\<forall>later. status (orders (approve_all n later ?s') ! i) = status (orders ?s' ! i) \<and>
                       status_history (orders (approve_all n later ?s') ! i) =
                         status_history (orders ?s' ! i))"
    using approve_all_not_received [OF idx] by simp
  from r len yes no later show ?thesis by blast
qed

theorem addApproval_promotion_witness:
  "findIndex (\<lambda>x. order_number x = ''WHS-001'') (orders two_approvals_state) = Some 0 \<and>
   map a_staff (approvals (orders two_approvals_state ! 0)) = [Some ''staff1'', Some ''staff2''] \<and>
   status (orders two_approvals_state ! 0) = Some ''received'' \<and>
   (\<exists>s'. addApproval ''WHS-001'' (Some ''staff3'') 3 two_approvals_state = (Inr 3, s') \<and>
      status (orders s' ! 0) = Some ''approved'' \<and>
      status (orders (approve_all ''WHS-001'' [(Some ''staff4'', 4), (Some ''staff1'', 5)] s') ! 0) =
        Some ''approved'' \<and>
      status_history (orders (approve_all ''WHS-001'' [(Some ''staff4'', 4), (Some ''staff1'', 5)] s') ! 0) =
        [\<lparr>h_status = Some ''received'', h_timestamp = 0, h_staff = Some ''staff1''\<rparr>,
         \<lparr>h_status = Some ''approved'', h_timestamp = 3, h_staff = Some ''SYSTEM''\<rparr>])"
proof -
  have h1: "findIndex (\<lambda>x. order_number x = ''WHS-001'') (orders two_approvals_state) = Some 0"
    by code_simp
  have h2: "status (orders two_approvals_state ! 0) = Some ''received''"
    by code_simp
  have h3: "length (approvals (orders two_approvals_state ! 0)) = 2"
    by code_simp
  have h4: "\<forall>a\<in>set (approvals (orders two_approvals_state ! 0)). a_staff a \<noteq> Some ''staff3''"
    by code_simp
  have h5: "status_history (orders two_approvals_state ! 0) =
              [\<lparr>h_status = Some ''received'', h_timestamp = 0, h_staff = Some ''staff1''\<rparr>]"
    by code_simp
  have h6: "map a_staff (approvals (orders two_approvals_state ! 0)) =
              [Some ''staff1'', Some ''staff2'']"
    by code_simp
  from addApproval_promotion [OF h1 h4, of 3] h2 h3 h5
  have "\<exists>s'. addApproval ''WHS-001'' (Some ''staff3'') 3 two_approvals_state = (Inr 3, s') \<and>
      status (orders s' ! 0) = Some ''approved'' \<and>
      status (orders (approve_all ''WHS-001'' [(Some ''staff4'', 4), (Some ''staff1'', 5)] s') ! 0) =
        Some ''approved'' \<and>
      status_history (orders (approve_all ''WHS-001'' [(Some ''staff4'', 4), (Some ''staff1'', 5)] s') ! 0) =
        [\<lparr>h_status = Some ''received'', h_timestamp = 0, h_staff = Some ''staff1''\<rparr>,
         \<lparr>h_status = Some ''approved'', h_timestamp = 3, h_staff = Some ''SYSTEM''\<rparr>]"
    by auto
  with h1 h2 h6 show ?thesis by blast
qed

text \<open>
  The claim that no later approval changes the status again fails once the status has been
  set back: after the promotion at three approvals, a status update to \<^verbatim>\<open>received\<close>
  followed by a fourth approval promotes a second time and appends a second
  \<^verbatim>\<open>SYSTEM\<close> entry.
\<close>

theorem fourth_approval_promotes_again:
  "length (approvals (orders promoted_state ! 0)) = 3 \<and>
   status (orders promoted_state ! 0) = Some ''approved'' \<and>
   status (orders reset_state ! 0) = Some ''received'' \<and>
   fst (addApproval ''WHS-001'' (Some ''staff4'') 5 reset_state) = Inr 4 \<and>
   status (orders (snd (addApproval ''WHS-001'' (Some ''staff4'') 5 reset_state)) ! 0) =
     Some ''approved'' \<and>
   status_history (orders (snd (addApproval ''WHS-001'' (Some ''staff4'') 5 reset_state)) ! 0) =
     status_history (orders reset_state ! 0) @
       [\<lparr>h_status = Some ''approved'', h_timestamp = 5, h_staff = Some ''SYSTEM''\<rparr>]"
  by code_simp

section \<open>Status updates\<close>

lemma updateStatus_found:
  assumes "findIndex (\<lambda>x. order_number x = n) (orders s) = Some i"
  shows "updateStatus n st staff invoice now s =
     (Inr (),
      logAudit now ''STATUS_UPDATE'' n (tmpl staff) (''Status: '' @ tmpl st)
        (s\<lparr>orders := (orders s)[i :=
           (orders s ! i)\<lparr>status := st,
              invoice_number := (if truthy invoice then the invoice else invoice_number (orders s ! i)),
              status_history := status_history (orders s ! i) @
                [\<lparr>h_status = st, h_timestamp = now, h_staff = staff\<rparr>]\<rparr>]\<rparr>))"
  using assms by (simp add: updateStatus_def Let_def)

text \<open>
  C10. A status update of a known order leaves \<^verbatim>\<open>invoice_number\<close> as it is when the
  \<^verbatim>\<open>invoiceNumber\<close> argument is absent or the empty string, and overwrites it with any
  non-empty value. Besides \<^verbatim>\<open>status\<close>, \<^verbatim>\<open>invoice_number\<close> and \<^verbatim>\<open>status_history\<close>
  (which gains one entry) every field of the order keeps its value, and so do all other
  orders and the recycle bin.
\<close>

theorem updateStatus_frame:
  assumes "findIndex (\<lambda>x. order_number x = n) (orders s) = Some i"
  shows "\<exists>s'. updateStatus n st staff invoice now s = (Inr (), s') \<and>
           (invoice = None \<or> invoice = Some [] \<longrightarrow>
              invoice_number (orders s' ! i) = invoice_number (orders s ! i)) \<and>
           (\<forall>v. invoice = Some v \<and> v \<noteq> [] \<longrightarrow> invoice_number (orders s' ! i) = v) \<and>
           status (orders s' ! i) = st \<and>
           status_history (orders s' ! i) =
             status_history (orders s ! i) @
               [\<lparr>h_status = st, h_timestamp = now, h_staff = staff\<rparr>] \<and>
           order_number (orders s' ! i) = order_number (orders s ! i) \<and>
           customer_name (orders s' ! i) = customer_name (orders s ! i) \<and>
           customer_phone (orders s' ! i) = customer_phone (orders s ! i) \<and>
           items (orders s' ! i) = items (orders s ! i) \<and>
           payment_method (orders s' ! i) = payment_method (orders s ! i) \<and>
           created_at (orders s' ! i) = created_at (orders s ! i) \<and>
           created_by (orders s' ! i) = created_by (orders s ! i) \<and>
           approvals (orders s' ! i) = approvals (orders s ! i) \<and>
           deleted_at (orders s' ! i) = deleted_at (orders s ! i) \<and>
           deleted_by (orders s' ! i) = deleted_by (orders s ! i) \<and>
           original_status (orders s' ! i) = original_status (orders s ! i) \<and>
           length (orders s') = length (orders s) \<and>
           (\<forall>j. j \<noteq> i \<longrightarrow> orders s' ! j = orders s ! j) \<and>
           deleted_orders s' = deleted_orders s"
proof -
  have i: "i < length (orders s)"
    using findIndex_Some [OF assms] by simp
  show ?thesis
    using i by (auto simp add: updateStatus_found [OF assms])
qed

theorem updateStatus_frame_witness:
  "findIndex (\<lambda>x. order_number x = ''WHS-001'') (orders one_order_state) = Some 0 \<and>
   (\<exists>s'. updateStatus ''WHS-001'' (Some ''packed'') (Some ''staff2'') (Some []) 7 one_order_state =
            (Inr (), s') \<and>
          invoice_number (orders s' ! 0) = [] \<and>
          status (orders s' ! 0) = Some ''packed'' \<and>
          customer_name (orders s' ! 0) = Some ''Jane'') \<and>
   (\<exists>s'. updateStatus ''WHS-001'' (Some ''packed'') (Some ''staff2'') (Some ''INV-9'') 7 one_order_state =
            (Inr (), s') \<and>
          invoice_number (orders s' ! 0) = ''INV-9'')"
proof -
  have h: "findIndex (\<lambda>x. order_number x = ''WHS-001'') (orders one_order_state) = Some 0"
    by code_simp
  have inv0: "invoice_number (orders one_order_state ! 0) = []"
    by code_simp
  have nm: "customer_name (orders one_order_state ! 0) = Some ''Jane''"
    by code_simp
  from updateStatus_frame [OF h, of "Some ''packed''" "Some ''staff2''" "Some []" 7] inv0 nm
  have A: "\<exists>s'. updateStatus ''WHS-001'' (Some ''packed'') (Some ''staff2'') (Some []) 7 one_order_state =
            (Inr (), s') \<and>
          invoice_number (orders s' ! 0) = [] \<and>
          status (orders s' ! 0) = Some ''packed'' \<and>
          customer_name (orders s' ! 0) = Some ''Jane''"
    by auto
  from updateStatus_frame [OF h, of "Some ''packed''" "Some ''staff2''" "Some ''INV-9''" 7]
  have B: "\<exists>s'. updateStatus ''WHS-001'' (Some ''packed'') (Some ''staff2'') (Some ''INV-9'') 7 one_order_state =
            (Inr (), s') \<and>
          invoice_number (orders s' ! 0) = ''INV-9''"
    by auto
  from h A B show ?thesis by blast
qed

section \<open>Order creation\<close>

text \<open>
  C7, as the source has it. Neither create handler inspects its request: for every
  request, with any of its fields absent, the handler answers with the generated order
  number and appends exactly one order, whose fields are the request's (an absent field
  stays absent). No path returns \<open>ValidationError\<close>.
\<close>

theorem createOrder_never_rejects:
  "fst (createOrder req now s) = Inr (generateOrderNumber s) \<and>
   orders (snd (createOrder req now s)) =
     orders s @ [new_order (generateOrderNumber s) req now] \<and>
   deleted_orders (snd (createOrder req now s)) = deleted_orders s \<and>
   customer_name (new_order (generateOrderNumber s) req now) = customerName req \<and>
   customer_phone (new_order (generateOrderNumber s) req now) = customerPhone req \<and>
   items (new_order (generateOrderNumber s) req now) = req_items req \<and>
   payment_method (new_order (generateOrderNumber s) req now) = paymentMethod req \<and>
   created_by (new_order (generateOrderNumber s) req now) = staffName req \<and>
   fst (createOrder_dated day month req now s) = Inr (generateOrderNumber_dated day month s) \<and>
   orders (snd (createOrder_dated day month req now s)) =
     orders s @ [new_order (generateOrderNumber_dated day month s) req now]"
  by (simp add: createOrder_def createOrder_dated_def Let_def new_order_def)

text \<open>
  The claim that a request without its required fields is refused and adds no order fails
  at the request with no field at all: on the empty store both handlers answer with an
  order number and the store holds one order afterwards.
\<close>

theorem createOrder_accepts_absent_fields:
  "fst (createOrder empty_request 0 empty_state) = Inr ''WHS-001'' \<and>
   fst (createOrder empty_request 0 empty_state) \<noteq> Inl ValidationError \<and>
   length (orders empty_state) = 0 \<and>
   length (orders (snd (createOrder empty_request 0 empty_state))) = 1 \<and>
   customer_name (orders (snd (createOrder empty_request 0 empty_state)) ! 0) = None \<and>
   fst (createOrder_dated 7 8 empty_request 0 empty_state) = Inr ''WHS-708-01'' \<and>
   length (orders (snd (createOrder_dated 7 8 empty_request 0 empty_state))) = 1"
  by code_simp

section \<open>Order numbers\<close>

text \<open>
  C1. Order numbers are meant to stay pairwise distinct in the order store under any
  sequence of creations, soft deletions and restorations from the empty store. The source
  numbers a new order by the current length of the order store plus one, so after two
  creations and the soft deletion of \<^verbatim>\<open>WHS-001\<close> the next creation issues \<^verbatim>\<open>WHS-002\<close>
  a second time: the store then holds two orders with that number.
\<close>

theorem generateOrderNumber_reissues_after_delete:
  "map order_number (orders (run
      [OpCreate example_request 0, OpCreate example_request 1,
       OpSoftDelete ''WHS-001'' (Some ''manager'') 2, OpCreate example_request 3]
      empty_state)) = [''WHS-002'', ''WHS-002''] \<and>
   \<not> distinct (map order_number (orders (run
      [OpCreate example_request 0, OpCreate example_request 1,
       OpSoftDelete ''WHS-001'' (Some ''manager'') 2, OpCreate example_request 3]
      empty_state)))"
  by code_simp

section \<open>Soft delete and restore\<close>

lemma splice1_decomp:
  "i < length xs \<Longrightarrow> \<exists>a b. xs = a @ (xs ! i) # b \<and> splice1 i xs = a @ b"
  unfolding splice1_def using id_take_nth_drop [of i xs] by blast

lemma set_splice1: "set (splice1 i xs) \<subseteq> set xs"
  unfolding splice1_def by (auto dest: in_set_takeD in_set_dropD)

lemma findIndex_append_new:
  "findIndex P xs = None \<Longrightarrow> P y \<Longrightarrow> findIndex P (xs @ [y]) = Some (length xs)"
  by (induction xs) (auto split: if_splits)

lemma splice1_last [simp]: "splice1 (length xs) (xs @ [y]) = xs"
  by (simp add: splice1_def)

lemma softDelete_found:
  assumes "findIndex (\<lambda>x. order_number x = n) (orders s) = Some i"
  shows "softDelete n staff now s =
     (Inr (length (deleted_orders s) + 1),
      logAudit now ''ORDER_MOVED_TO_RECYCLE'' n (or_default staff ''manager'')
        (''Order moved to recycle bin: '' @ tmpl (customer_name (orders s ! i)))
        (s\<lparr>orders := splice1 i (orders s),
           deleted_orders := deleted_orders s @
             [(orders s ! i)\<lparr>deleted_at := Some now,
                 deleted_by := Some (or_default staff ''manager''),
                 original_status := status (orders s ! i),
                 status := Some ''deleted''\<rparr>]\<rparr>))"
  using assms by (simp add: softDelete_def Let_def)

lemma restore_found:
  assumes "findIndex (\<lambda>x. order_number x = n) (deleted_orders s) = Some i"
  shows "restore n staff now s =
     (Inr (),
      logAudit now ''ORDER_RESTORED'' n (or_default staff ''manager'')
        (''Order restored from recycle bin: '' @ tmpl (customer_name (deleted_orders s ! i)))
        (s\<lparr>orders := orders s @
             [(deleted_orders s ! i)\<lparr>status := Some (or_default (original_status (deleted_orders s ! i)) ''received''),
                 deleted_at := None, deleted_by := None, original_status := None\<rparr>],
           deleted_orders := splice1 i (deleted_orders s)\<rparr>))"
  using assms by (simp add: restore_def Let_def)

lemma permanentlyDelete_found:
  assumes "findIndex (\<lambda>x. order_number x = n) (deleted_orders s) = Some i"
  shows "orders (snd (permanentlyDelete n staff now s)) = orders s \<and>
         deleted_orders (snd (permanentlyDelete n staff now s)) = splice1 i (deleted_orders s)"
  using assms by (simp add: permanentlyDelete_def exportOrderData_def Let_def split: if_splits)

lemma findIndex_first:
  "j < length xs \<Longrightarrow> P (xs ! j) \<Longrightarrow> \<forall>k<j. \<not> P (xs ! k) \<Longrightarrow> findIndex P xs = Some j"
proof (induction xs arbitrary: j)
  case Nil
  then show ?case by simp
next
  case (Cons x xs)
  show ?case
  proof (cases j)
    case 0
    with Cons.prems show ?thesis by simp
  next
    case (Suc m)
    from Cons.prems(3) Suc have x: "\<not> P x" by auto
    from Cons.prems Suc have "findIndex P xs = Some m"
      by (intro Cons.IH) auto
    with x Suc show ?thesis by simp
  qed
qed

text \<open>
  C3, as the source has it. Take any order of the order store whose number is carried by
  no other order of the order store and by no entry of the recycle bin. A soft delete
  followed by a restore of that number succeeds and puts this order back at the end of
  the order store, with the bin as before; the restored record equals the original in
  every field, its history has gained no entry and \<^verbatim>\<open>deleted_at\<close>, \<^verbatim>\<open>deleted_by\<close>
  and \<^verbatim>\<open>original_status\<close> are absent. Its status is the status before the deletion
  when that was a non-empty string; when it was absent or the empty string, the restore
  handler's default \<^verbatim>\<open>|| 'received'\<close> applies.
\<close>

theorem softDelete_restore_roundtrip:
  assumes "j < length (orders s)"
    and "\<forall>k<length (orders s). k \<noteq> j \<longrightarrow>
           order_number (orders s ! k) \<noteq> order_number (orders s ! j)"
    and "\<forall>e\<in>set (deleted_orders s). order_number e \<noteq> order_number (orders s ! j)"
  shows "\<exists>k s1 s2. softDelete (order_number (orders s ! j)) staff now s = (Inr k, s1) \<and>
           restore (order_number (orders s ! j)) staff' now' s1 = (Inr (), s2) \<and>
           orders s2 = splice1 j (orders s) @ [last (orders s2)] \<and>
           deleted_orders s2 = deleted_orders s \<and>
           (status (orders s ! j) \<noteq> None \<and> status (orders s ! j) \<noteq> Some [] \<longrightarrow>
              status (last (orders s2)) = status (orders s ! j)) \<and>
           (status (orders s ! j) = None \<or> status (orders s ! j) = Some [] \<longrightarrow>
              status (last (orders s2)) = Some ''received'') \<and>
           status_history (last (orders s2)) = status_history (orders s ! j) \<and>
           deleted_at (last (orders s2)) = None \<and>
           deleted_by (last (orders s2)) = None \<and>
           original_status (last (orders s2)) = None \<and>
           last (orders s2) =
             (orders s ! j)\<lparr>status := status (last (orders s2)),
                deleted_at := None, deleted_by := None, original_status := None\<rparr>"
proof -
  let ?x = "orders s ! j"
  let ?n = "order_number ?x"
  let ?binned = "?x\<lparr>deleted_at := Some now, deleted_by := Some (or_default staff ''manager''),
                    original_status := status ?x, status := Some ''deleted''\<rparr>"
  let ?s1 = "snd (softDelete ?n staff now s)"
  from assms(1,2) have "\<forall>k<j. order_number (orders s ! k) \<noteq> ?n"
    by auto
  with assms(1) have found: "findIndex (\<lambda>x. order_number x = ?n) (orders s) = Some j"
    by (intro findIndex_first) auto
  from assms(3) have absent: "findIndex (\<lambda>x. order_number x = ?n) (deleted_orders s) = None"
    by (simp add: findIndex_None)
  have r1: "softDelete ?n staff now s = (Inr (length (deleted_orders s) + 1), ?s1)"
    by (simp add: softDelete_found [OF found])
  have o1: "orders ?s1 = splice1 j (orders s)"
    and d1: "deleted_orders ?s1 = deleted_orders s @ [?binned]"
    by (simp_all add: softDelete_found [OF found])
  have idx: "findIndex (\<lambda>x. order_number x = ?n) (deleted_orders ?s1) =
               Some (length (deleted_orders s))"
    unfolding d1 using absent by (simp add: findIndex_append_new)
  let ?s2 = "snd (restore ?n staff' now' ?s1)"
  have r2: "restore ?n staff' now' ?s1 = (Inr (), ?s2)"
    by (simp add: restore_found [OF idx])
  have o2: "orders ?s2 = splice1 j (orders s) @
              [?x\<lparr>status := Some (or_default (status ?x) ''received''),
                  deleted_at := None, deleted_by := None, original_status := None\<rparr>]"
    by (simp add: restore_found [OF idx] o1 d1)
  have d2: "deleted_orders ?s2 = deleted_orders s"
    by (simp add: restore_found [OF idx] d1)
  have l: "last (orders ?s2) =
             ?x\<lparr>status := Some (or_default (status ?x) ''received''),
                 deleted_at := None, deleted_by := None, original_status := None\<rparr>"
    by (simp add: o2)
  have rest: "orders ?s2 = splice1 j (orders s) @ [last (orders ?s2)] \<and>
           deleted_orders ?s2 = deleted_orders s \<and>
           (status ?x \<noteq> None \<and> status ?x \<noteq> Some [] \<longrightarrow>
              status (last (orders ?s2)) = status ?x) \<and>
           (status ?x = None \<or> status ?x = Some [] \<longrightarrow>
              status (last (orders ?s2)) = Some ''received'') \<and>
           status_history (last (orders ?s2)) = status_history ?x \<and>
           deleted_at (last (orders ?s2)) = None \<and>
           deleted_by (last (orders ?s2)) = None \<and>
           original_status (last (orders ?s2)) = None \<and>
           last (orders ?s2) =
             ?x\<lparr>status := status (last (orders ?s2)),
                deleted_at := None, deleted_by := None, original_status := None\<rparr>"
    unfolding l using o2 d2 by (auto simp: or_default_def split: option.splits)
  from r1 r2 rest show ?thesis by blast
qed

theorem softDelete_restore_roundtrip_witness:
  "map order_number (orders two_orders_state) = [''WHS-001'', ''WHS-002''] \<and>
   deleted_orders two_orders_state = [] \<and>
   status (orders two_orders_state ! 0) = Some ''packed'' \<and>
   (\<exists>k s1 s2. softDelete ''WHS-001'' (Some ''manager'') 8 two_orders_state = (Inr k, s1) \<and>
      restore ''WHS-001'' None 9 s1 = (Inr (), s2) \<and>
      orders s2 = [orders two_orders_state ! 1, orders two_orders_state ! 0] \<and>
      status (last (orders s2)) = Some ''packed'' \<and>
      deleted_orders s2 = [])"
proof -
  have h1: "(0::nat) < length (orders two_orders_state)"
    by code_simp
  have h2: "\<forall>k<length (orders two_orders_state). k \<noteq> 0 \<longrightarrow>
              order_number (orders two_orders_state ! k) \<noteq>
              order_number (orders two_orders_state ! 0)"
  proof -
    have "length (orders two_orders_state) = 2" by code_simp
    moreover have "order_number (orders two_orders_state ! 1) \<noteq>
                   order_number (orders two_orders_state ! 0)"
      by code_simp
    ultimately show ?thesis
      by (auto simp: less_Suc_eq numeral_2_eq_2)
  qed
  have h3: "\<forall>e\<in>set (deleted_orders two_orders_state).
              order_number e \<noteq> order_number (orders two_orders_state ! 0)"
    by code_simp
  have n: "order_number (orders two_orders_state ! 0) = ''WHS-001''"
    by code_simp
  have ns: "map order_number (orders two_orders_state) = [''WHS-001'', ''WHS-002'']"
    by code_simp
  have st: "status (orders two_orders_state ! 0) = Some ''packed''"
    by code_simp
  have md: "deleted_at (orders two_orders_state ! 0) = None \<and>
            deleted_by (orders two_orders_state ! 0) = None \<and>
            original_status (orders two_orders_state ! 0) = None"
    by code_simp
  have sp: "splice1 0 (orders two_orders_state) = [orders two_orders_state ! 1]"
    by code_simp
  have ds: "deleted_orders two_orders_state = []"
    by code_simp
  from softDelete_restore_roundtrip [OF h1 h2 h3, of "Some ''manager''" 8 None 9]
  obtain k s1 s2 where
    a: "softDelete (order_number (orders two_orders_state ! 0)) (Some ''manager'') 8
          two_orders_state = (Inr k, s1)"
    and b: "restore (order_number (orders two_orders_state ! 0)) None 9 s1 = (Inr (), s2)"
    and c: "orders s2 = splice1 0 (orders two_orders_state) @ [last (orders s2)]"
    and d: "deleted_orders s2 = deleted_orders two_orders_state"
    and e: "status (orders two_orders_state ! 0) \<noteq> None \<and>
            status (orders two_orders_state ! 0) \<noteq> Some [] \<longrightarrow>
              status (last (orders s2)) = status (orders two_orders_state ! 0)"
    and f: "last (orders s2) =
             (orders two_orders_state ! 0)\<lparr>status := status (last (orders s2)),
                deleted_at := None, deleted_by := None, original_status := None\<rparr>"
    by blast
  from e st have g: "status (last (orders s2)) = Some ''packed''"
    by simp
  with f md st have "last (orders s2) = orders two_orders_state ! 0"
    by simp
  with c sp have "orders s2 = [orders two_orders_state ! 1, orders two_orders_state ! 0]"
    by simp
  with a b d ds g n ns st show ?thesis by auto
qed

text \<open>
  The claim that the restored status always equals the status before the deletion fails
  for an order whose status is the empty string (the status handler accepts any string):
  it comes back with status \<^verbatim>\<open>received\<close>.
\<close>

theorem restore_defaults_blank_status:
  "status (orders blank_status_state ! 0) = Some [] \<and>
   map order_number (orders blank_status_state) = [''WHS-001''] \<and>
   status (orders (run [OpSoftDelete ''WHS-001'' (Some ''manager'') 2,
                        OpRestore ''WHS-001'' (Some ''manager'') 3] blank_status_state) ! 0) =
     Some ''received''"
  by code_simp

text \<open>
  The restriction to order numbers that no bin entry carries is needed as well: the
  restore handler takes the first bin entry with the number, which is an older order when
  the number had been issued twice.
\<close>

lemma restore_takes_first_bin_entry:
  "map order_number (orders reused_number_state) = [''WHS-001''] \<and>
   map order_number (deleted_orders reused_number_state) = [''WHS-001''] \<and>
   map created_at (orders reused_number_state) = [2] \<and>
   map created_at (orders (run [OpSoftDelete ''WHS-001'' (Some ''manager'') 3,
                                OpRestore ''WHS-001'' (Some ''manager'') 4]
                             reused_number_state)) = [0]"
  by code_simp

text \<open>
  So is the restriction to a number that no other order of the store carries: the soft
  delete takes the first order with the number, and the order that comes back at the end
  of the store is that one.
\<close>

lemma softDelete_takes_first_order:
  "map order_number (orders duplicate_number_state) = [''WHS-002'', ''WHS-002''] \<and>
   map created_at (orders duplicate_number_state) = [1, 3] \<and>
   map created_at (orders (run [OpSoftDelete ''WHS-002'' (Some ''manager'') 4,
                                OpRestore ''WHS-002'' (Some ''manager'') 5]
                             duplicate_number_state)) = [3, 1]"
  by code_simp

section \<open>The two stores stay apart\<close>

lemma softDelete_missing:
  "findIndex (\<lambda>x. order_number x = n) (orders s) = None \<Longrightarrow>
   softDelete n staff now s = (Inl NotFoundError, s)"
  by (simp add: softDelete_def)

lemma restore_missing:
  "findIndex (\<lambda>x. order_number x = n) (deleted_orders s) = None \<Longrightarrow>
   restore n staff now s = (Inl NotFoundError, s)"
  by (simp add: restore_def)

lemma permanentlyDelete_missing:
  "findIndex (\<lambda>x. order_number x = n) (deleted_orders s) = None \<Longrightarrow>
   permanentlyDelete n staff now s = (Inl NotFoundError, s)"
  by (simp add: permanentlyDelete_def)

lemma softDelete_numbers_distinct:
  assumes "numbers_distinct s"
  shows "numbers_distinct (snd (softDelete n staff now s))"
proof (cases "findIndex (\<lambda>x. order_number x = n) (orders s)")
  case None
  with assms show ?thesis by (simp add: softDelete_missing)
next
  case (Some i)
  then have "i < length (orders s)"
    using findIndex_Some by fastforce
  then obtain a b where ab: "orders s = a @ (orders s ! i) # b" "splice1 i (orders s) = a @ b"
    using splice1_decomp by blast
  from assms have "distinct (map order_number (a @ (orders s ! i) # b @ deleted_orders s))"
    unfolding numbers_distinct_def by (subst (asm) ab(1)) simp
  then show ?thesis
    unfolding numbers_distinct_def by (auto simp add: softDelete_found [OF Some] ab(2))
qed

lemma restore_numbers_distinct:
  assumes "numbers_distinct s"
  shows "numbers_distinct (snd (restore n staff now s))"
proof (cases "findIndex (\<lambda>x. order_number x = n) (deleted_orders s)")
  case None
  with assms show ?thesis by (simp add: restore_missing)
next
  case (Some i)
  then have "i < length (deleted_orders s)"
    using findIndex_Some by fastforce
  then obtain a b where ab: "deleted_orders s = a @ (deleted_orders s ! i) # b"
      "splice1 i (deleted_orders s) = a @ b"
    using splice1_decomp by blast
  from assms have "distinct (map order_number (orders s @ a @ (deleted_orders s ! i) # b))"
    unfolding numbers_distinct_def by (subst (asm) ab(1)) simp
  then show ?thesis
    unfolding numbers_distinct_def by (auto simp add: restore_found [OF Some] ab(2))
qed

lemma permanentlyDelete_numbers_distinct:
  assumes "numbers_distinct s"
  shows "numbers_distinct (snd (permanentlyDelete n staff now s))"
proof (cases "findIndex (\<lambda>x. order_number x = n) (deleted_orders s)")
  case None
  with assms show ?thesis by (simp add: permanentlyDelete_missing)
next
  case (Some i)
  then have "i < length (deleted_orders s)"
    using findIndex_Some by fastforce
  then obtain a b where ab: "deleted_orders s = a @ (deleted_orders s ! i) # b"
      "splice1 i (deleted_orders s) = a @ b"
    using splice1_decomp by blast
  from assms have "distinct (map order_number (orders s @ a @ (deleted_orders s ! i) # b))"
    unfolding numbers_distinct_def by (subst (asm) ab(1)) simp
  then show ?thesis
    unfolding numbers_distinct_def by (auto simp add: permanentlyDelete_found [OF Some] ab(2))
qed

lemma recycle_op_numbers_distinct:
  "recycle_op op \<Longrightarrow> numbers_distinct s \<Longrightarrow> numbers_distinct (apply_op op s)"
  by (cases op)
     (simp_all add: softDelete_numbers_distinct restore_numbers_distinct
        permanentlyDelete_numbers_distinct)

lemma run_numbers_distinct:
  "\<forall>op\<in>set ops. recycle_op op \<Longrightarrow> numbers_distinct s \<Longrightarrow> numbers_distinct (run ops s)"
  unfolding run_def
  by (induction ops arbitrary: s) (simp_all add: recycle_op_numbers_distinct)

lemma numbers_distinct_disjoint: "numbers_distinct s \<Longrightarrow> stores_disjoint s"
  by (auto simp: numbers_distinct_def stores_disjoint_def)

text \<open>
  C4, as the source has it. From a state in which the order numbers of the two stores
  taken together are pairwise distinct, every sequence of soft deletes, restores and
  permanent deletes (failed requests included) leads to a state with the same property;
  in particular no order number is in both stores at any point of the sequence.
\<close>

theorem recycle_ops_keep_stores_disjoint:
  assumes "distinct (map order_number (orders s @ deleted_orders s))"
    and "\<forall>op\<in>set ops. recycle_op op"
  shows "stores_disjoint (run ops s) \<and>
         distinct (map order_number (orders (run ops s) @ deleted_orders (run ops s)))"
proof -
  from assms(1) have "numbers_distinct s"
    by (simp add: numbers_distinct_def)
  with assms(2) have "numbers_distinct (run ops s)"
    by (rule run_numbers_distinct)
  then show ?thesis
    using numbers_distinct_disjoint by (simp add: numbers_distinct_def)
qed

theorem recycle_ops_keep_stores_disjoint_witness:
  "distinct (map order_number (orders one_approval_state @ deleted_orders one_approval_state)) \<and>
   list_all recycle_op
     [OpSoftDelete ''WHS-001'' None 5, OpRestore ''WHS-001'' None 6,
      OpSoftDelete ''WHS-001'' None 7, OpPermanentlyDelete ''WHS-001'' None 8] \<and>
   stores_disjoint (run [OpSoftDelete ''WHS-001'' None 5, OpRestore ''WHS-001'' None 6,
               OpSoftDelete ''WHS-001'' None 7, OpPermanentlyDelete ''WHS-001'' None 8]
               one_approval_state)"
proof -
  have h1: "distinct (map order_number (orders one_approval_state @ deleted_orders one_approval_state))"
    by code_simp
  have h2: "\<forall>op\<in>set [OpSoftDelete ''WHS-001'' None 5, OpRestore ''WHS-001'' None 6,
               OpSoftDelete ''WHS-001'' None 7, OpPermanentlyDelete ''WHS-001'' None 8].
      recycle_op op"
    by simp
  have h3: "list_all recycle_op
     [OpSoftDelete ''WHS-001'' None 5, OpRestore ''WHS-001'' None 6,
      OpSoftDelete ''WHS-001'' None 7, OpPermanentlyDelete ''WHS-001'' None 8]"
    by simp
  from recycle_ops_keep_stores_disjoint [OF h1 h2] h1 h3 show ?thesis
    by blast
qed

text \<open>
  Disjoint stores alone are not enough to start from. Each handler moves the first entry
  with the requested number only, so from the disjoint state with two orders numbered
  \<^verbatim>\<open>WHS-002\<close> in the order store, a soft delete of \<^verbatim>\<open>WHS-002\<close> leaves that number
  in both stores.
\<close>

theorem softDelete_of_duplicate_number_overlaps:
  "stores_disjoint duplicate_number_state \<and>
   recycle_op (OpSoftDelete ''WHS-002'' (Some ''manager'') 4) \<and>
   \<not> stores_disjoint (run [OpSoftDelete ''WHS-002'' (Some ''manager'') 4] duplicate_number_state)"
  by code_simp

text \<open>
  The same happens from a bin that holds a number twice: a restore moves one entry and
  leaves the other.
\<close>

lemma restore_of_duplicate_number_overlaps:
  "map order_number (orders duplicate_bin_state) = [] \<and>
   map order_number (deleted_orders duplicate_bin_state) = [''WHS-001'', ''WHS-001''] \<and>
   stores_disjoint duplicate_bin_state \<and>
   \<not> stores_disjoint (run [OpRestore ''WHS-001'' (Some ''manager'') 4] duplicate_bin_state)"
  by code_simp

section \<open>Automatic cleanup\<close>

lemma host_logAudit [simp]: "host (logAudit now a n st d s) = host s"
  by (simp add: logAudit_def)

lemma exports_logAudit [simp]: "exports (logAudit now a n st d s) = exports s"
  by (simp add: logAudit_def)

lemma audit_log_logAudit [simp]:
  "audit_log (logAudit now a n st d s) =
     audit_log s @ [\<lparr>au_timestamp = now, au_action = a, au_order_id = n,
                     au_staff = st, au_details = d\<rparr>]"
  by (simp add: logAudit_def)

lemma exportOrderData_state:
  "snd (exportOrderData now e s) = s\<lparr>exports := write_export (host s) now (exports s) e\<rparr>"
  by (simp add: exportOrderData_def write_export_def Let_def)

lemma cleanup_loop_eq:
  "cleanup_loop now c xs (toKeep, n, s) =
     (toKeep @ filter (\<lambda>e. keeps c e) xs,
      n + length (filter (\<lambda>e. \<not> keeps c e) xs),
      s\<lparr>audit_log := audit_log s @
           map (\<lambda>e. \<lparr>au_timestamp = now, au_action = ''AUTO_CLEANUP'',
                     au_order_id = order_number e, au_staff = ''SYSTEM'',
                     au_details = ''7-day auto cleanup''\<rparr>)
             (filter (\<lambda>e. \<not> keeps c e) xs),
         exports := foldl (write_export (host s) now) (exports s)
                      (filter (\<lambda>e. \<not> keeps c e) xs)\<rparr>)"
proof (induction xs arbitrary: toKeep n s)
  case Nil
  show ?case by simp
next
  case (Cons x xs)
  show ?case
    by (simp add: Cons.IH exportOrderData_state logAudit_def)
qed

lemma autoCleanup_eq:
  "autoCleanupDeletedOrders now s =
     (if filter (\<lambda>e. \<not> keeps (sevenDaysAgo (host s) now) e) (deleted_orders s) = [] then s
      else s\<lparr>deleted_orders := filter (\<lambda>e. keeps (sevenDaysAgo (host s) now) e) (deleted_orders s),
             audit_log := audit_log s @
               map (\<lambda>e. \<lparr>au_timestamp = now, au_action = ''AUTO_CLEANUP'',
                         au_order_id = order_number e, au_staff = ''SYSTEM'',
                         au_details = ''7-day auto cleanup''\<rparr>)
                 (filter (\<lambda>e. \<not> keeps (sevenDaysAgo (host s) now) e) (deleted_orders s)),
             exports := foldl (write_export (host s) now) (exports s)
               (filter (\<lambda>e. \<not> keeps (sevenDaysAgo (host s) now) e) (deleted_orders s))\<rparr>)"
  by (simp add: autoCleanupDeletedOrders_def cleanup_loop_eq)

lemma filter_all_kept:
  "filter (\<lambda>e. \<not> P e) xs = [] \<Longrightarrow> filter P xs = xs"
  by (induction xs) (auto split: if_splits)

lemma deleted_autoCleanup:
  "deleted_orders (autoCleanupDeletedOrders now s) =
     filter (\<lambda>e. keeps (sevenDaysAgo (host s) now) e) (deleted_orders s)"
  by (simp add: autoCleanup_eq filter_all_kept)










text \<open>
  Nor is every removed entry exported: when the write of the export file fails, the entry
  is removed all the same and the audit line is written.
\<close>

lemma autoCleanup_removes_without_export:
  "map order_number (deleted_orders read_only_bin_state) = [''WHS-001'', ''WHS-002''] \<and>
   map order_number (deleted_orders (autoCleanupDeletedOrders 691200000 read_only_bin_state)) =
     [''WHS-002''] \<and>
   exports (autoCleanupDeletedOrders 691200000 read_only_bin_state) = [] \<and>
   map au_action (audit_log (autoCleanupDeletedOrders 691200000 read_only_bin_state)) =
     map au_action (audit_log read_only_bin_state) @ [''AUTO_CLEANUP'']"
  by code_simp

section \<open>Search\<close>

lemma startsWith_iff: "startsWith s q \<longleftrightarrow> (\<exists>r. s = q @ r)"
  by (induction s q rule: startsWith.induct) auto

lemma includes_str_iff: "includes_str s q \<longleftrightarrow> (\<exists>p r. s = p @ q @ r)"
proof (induction s)
  case Nil
  show ?case by simp
next
  case (Cons d s)
  show ?case
  proof
    assume "includes_str (d # s) q"
    then consider "startsWith (d # s) q" | "includes_str s q" by auto
    then show "\<exists>p r. d # s = p @ q @ r"
    proof cases
      case 1
      then obtain r where "d # s = q @ r" by (auto simp: startsWith_iff)
      then have "d # s = [] @ q @ r" by simp
      then show ?thesis by blast
    next
      case 2
      with Cons.IH obtain p r where "s = p @ q @ r" by blast
      then have "d # s = (d # p) @ q @ r" by simp
      then show ?thesis by blast
    qed
  next
    assume "\<exists>p r. d # s = p @ q @ r"
    then obtain p r where e: "d # s = p @ q @ r" by blast
    show "includes_str (d # s) q"
    proof (cases p)
      case Nil
      with e have "startsWith (d # s) q" by (auto simp: startsWith_iff)
      then show ?thesis by simp
    next
      case (Cons c p')
      with e have "s = p' @ q @ r" by simp
      with Cons.IH have "includes_str s q" by blast
      then show ?thesis by simp
    qed
  qed
qed

lemma includes_str_empty [simp]: "includes_str s []"
  by (cases s) simp_all

lemma search_test_total:
  "customer_name x \<noteq> None \<Longrightarrow> customer_phone x \<noteq> None \<Longrightarrow>
   search_test lower q x = Inr (search_match lower q x)"
  by (auto simp: search_test_def search_match_def)

lemma filter_throwing_total:
  "\<forall>x\<in>set xs. P x = Inr (Q x) \<Longrightarrow> filter_throwing P xs = Inr (filter Q xs)"
  by (induction xs) auto

text \<open>
  C8, as the source has it. Let \<open>lower\<close> be \<^verbatim>\<open>toLowerCase\<close>. On a store whose orders
  all have a customer name and a phone, a search for a non-empty \<open>q\<close> without a status
  filter returns, in store order, exactly the orders for which \<open>lower q\<close> is a substring
  of \<open>lower\<close> of the customer name or of \<open>lower\<close> of the order number, or \<open>q\<close> itself is
  a substring of the phone; a search for the empty \<open>q\<close> returns every order. The phone
  is compared as it is stored: there is no digit-only normalization in the search.
\<close>

theorem searchOrders_returns_matches:
  assumes "\<forall>x\<in>set (orders s). customer_name x \<noteq> None \<and> customer_phone x \<noteq> None"
    and "status_param = None \<or> status_param = Some [] \<or> status_param = Some ''all''"
  shows "(q \<noteq> [] \<longrightarrow>
            searchOrders lower (Some q) status_param s =
              Inr (filter (search_match lower q) (orders s))) \<and>
         searchOrders lower (Some []) status_param s = Inr (orders s) \<and>
         (\<forall>x. search_match lower q x \<longleftrightarrow>
            (\<exists>name. customer_name x = Some name \<and> (\<exists>p r. lower name = p @ lower q @ r)) \<or>
            (\<exists>p r. lower (order_number x) = p @ lower q @ r) \<or>
            (\<exists>phone. customer_phone x = Some phone \<and> (\<exists>p r. phone = p @ q @ r)))"
proof (intro conjI impI allI)
  assume "q \<noteq> []"
  moreover have "filter_throwing (search_test lower q) (orders s) =
                   Inr (filter (search_match lower q) (orders s))"
    using assms(1) by (intro filter_throwing_total) (simp add: search_test_total)
  ultimately show "searchOrders lower (Some q) status_param s =
                     Inr (filter (search_match lower q) (orders s))"
    using assms(2) by (auto simp: searchOrders_def)
next
  show "searchOrders lower (Some []) status_param s = Inr (orders s)"
    using assms(2) by (auto simp: searchOrders_def)
next
  fix x
  show "search_match lower q x \<longleftrightarrow>
            (\<exists>name. customer_name x = Some name \<and> (\<exists>p r. lower name = p @ lower q @ r)) \<or>
            (\<exists>p r. lower (order_number x) = p @ lower q @ r) \<or>
            (\<exists>phone. customer_phone x = Some phone \<and> (\<exists>p r. phone = p @ q @ r))"
    by (auto simp: search_match_def includes_str_iff split: option.splits)
qed

theorem searchOrders_returns_matches_witness:
  "map customer_name (orders one_order_state) = [Some ''Jane''] \<and>
   map customer_phone (orders one_order_state) = [Some ''0771234567''] \<and>
   searchOrders toLowerCase_ascii (Some ''jAn'') None one_order_state =
     Inr (orders one_order_state) \<and>
   searchOrders toLowerCase_ascii (Some ''12345'') (Some ''all'') one_order_state =
     Inr (orders one_order_state) \<and>
   searchOrders toLowerCase_ascii (Some ''whs-002'') None one_order_state = Inr []"
proof -
  have h: "\<forall>x\<in>set (orders one_order_state). customer_name x \<noteq> None \<and> customer_phone x \<noteq> None"
    by code_simp
  have a: "filter (search_match toLowerCase_ascii ''jAn'') (orders one_order_state) =
             orders one_order_state"
    by code_simp
  have b: "filter (search_match toLowerCase_ascii ''12345'') (orders one_order_state) =
             orders one_order_state"
    by code_simp
  have c: "filter (search_match toLowerCase_ascii ''whs-002'') (orders one_order_state) = []"
    by code_simp
  have np: "map customer_name (orders one_order_state) = [Some ''Jane''] \<and>
            map customer_phone (orders one_order_state) = [Some ''0771234567'']"
    by code_simp
  from searchOrders_returns_matches [OF h, of None "''jAn''" toLowerCase_ascii] a
  have 1: "searchOrders toLowerCase_ascii (Some ''jAn'') None one_order_state =
             Inr (orders one_order_state)"
    by simp
  from searchOrders_returns_matches [OF h, of "Some ''all''" "''12345''" toLowerCase_ascii] b
  have 2: "searchOrders toLowerCase_ascii (Some ''12345'') (Some ''all'') one_order_state =
             Inr (orders one_order_state)"
    by simp
  from searchOrders_returns_matches [OF h, of None "''whs-002''" toLowerCase_ascii] c
  have 3: "searchOrders toLowerCase_ascii (Some ''whs-002'') None one_order_state = Inr []"
    by simp
  from np 1 2 3 show ?thesis by blast
qed

text \<open>
  The claim that the phone match of the search also succeeds on the digits of the query
  fails for the query \<^verbatim>\<open>077 123\<close> against the phone \<^verbatim>\<open>0771234567\<close>: the digits
  \<^verbatim>\<open>077123\<close> are a substring of the phone's digits, so the described match selects
  the order, and the search returns nothing. (All strings involved are ASCII.)
\<close>

theorem searchOrders_has_no_digit_normalization:
  "customer_phone (orders one_order_state ! 0) = Some ''0771234567'' \<and>
   spec_search_match toLowerCase_ascii ''077 123'' (orders one_order_state ! 0) \<and>
   filter (spec_search_match toLowerCase_ascii ''077 123'') (orders one_order_state) =
     orders one_order_state \<and>
   length (orders one_order_state) = 1 \<and>
   searchOrders toLowerCase_ascii (Some ''077 123'') None one_order_state = Inr []"
  by code_simp

section \<open>Entries of the recycle bin\<close>

lemma apply_op_bin:
  "\<forall>e\<in>set (deleted_orders (apply_op op s)). e \<in> set (deleted_orders s) \<or> binned_by op s e"
proof (cases op)
  case (OpCreate req now)
  then show ?thesis
    by (simp add: createOrder_def Let_def)
next
  case (OpUpdateStatus n st staff invoice now)
  then show ?thesis
    by (simp add: updateStatus_def Let_def split: option.splits)
next
  case (OpApprove n staff now)
  then show ?thesis
    by (simp add: addApproval_def Let_def split: option.splits)
next
  case (OpSoftDelete n staff now)
  show ?thesis
  proof (cases "findIndex (\<lambda>x. order_number x = n) (orders s)")
    case None
    with OpSoftDelete show ?thesis by (simp add: softDelete_missing)
  next
    case (Some i)
    with OpSoftDelete show ?thesis by (simp add: softDelete_found binned_by_def)
  qed
next
  case (OpRestore n staff now)
  show ?thesis
  proof (cases "findIndex (\<lambda>x. order_number x = n) (deleted_orders s)")
    case None
    with OpRestore show ?thesis by (simp add: restore_missing)
  next
    case (Some i)
    with OpRestore set_splice1 [of i "deleted_orders s"] show ?thesis
      by (auto simp add: restore_found)
  qed
next
  case (OpPermanentlyDelete n staff now)
  show ?thesis
  proof (cases "findIndex (\<lambda>x. order_number x = n) (deleted_orders s)")
    case None
    with OpPermanentlyDelete show ?thesis by (simp add: permanentlyDelete_missing)
  next
    case (Some i)
    with OpPermanentlyDelete set_splice1 [of i "deleted_orders s"] show ?thesis
      by (auto simp add: permanentlyDelete_found)
  qed
next
  case (OpAutoCleanup now)
  then show ?thesis
    by (simp add: deleted_autoCleanup)
qed

lemma run_snoc: "run (ops @ [op]) s = apply_op op (run ops s)"
  by (simp add: run_def)

lemma run_bin:
  "\<forall>e\<in>set (deleted_orders (run ops s)).
     e \<in> set (deleted_orders s) \<or>
     (\<exists>m<length ops. binned_by (ops ! m) (run (take m ops) s) e)"
proof (induction ops rule: rev_induct)
  case Nil
  show ?case by (simp add: run_def)
next
  case (snoc op ops)
  show ?case
  proof
    fix e
    assume "e \<in> set (deleted_orders (run (ops @ [op]) s))"
    then have "e \<in> set (deleted_orders (apply_op op (run ops s)))"
      by (simp add: run_snoc)
    with apply_op_bin
    consider "e \<in> set (deleted_orders (run ops s))" | "binned_by op (run ops s) e"
      by blast
    then show "e \<in> set (deleted_orders s) \<or>
               (\<exists>m<length (ops @ [op]).
                  binned_by ((ops @ [op]) ! m) (run (take m (ops @ [op])) s) e)"
    proof cases
      case 1
      with snoc.IH consider "e \<in> set (deleted_orders s)"
        | m where "m < length ops" "binned_by (ops ! m) (run (take m ops) s) e"
        by blast
      then show ?thesis
      proof cases
        case 1
        then show ?thesis by simp
      next
        case 2
        then have "m < length (ops @ [op]) \<and>
                   binned_by ((ops @ [op]) ! m) (run (take m (ops @ [op])) s) e"
          by (simp add: nth_append)
        then show ?thesis by blast
      qed
    next
      case 2
      then have "length ops < length (ops @ [op]) \<and>
                 binned_by ((ops @ [op]) ! length ops)
                   (run (take (length ops) (ops @ [op])) s) e"
        by simp
      then show ?thesis by blast
    qed
  qed
qed

lemma binned_by_softDelete:
  "binned_by op t e \<Longrightarrow> \<exists>n staff now. op = OpSoftDelete n staff now"
  by (cases op) (simp_all add: binned_by_def)

lemma binned_by_fields:
  assumes "binned_by op t e"
  shows "status e = Some ''deleted'' \<and>
         (\<exists>x\<in>set (orders t). order_number e = order_number x \<and> original_status e = status x)"
proof -
  from assms obtain n staff now i where
    i: "findIndex (\<lambda>x. order_number x = n) (orders t) = Some i"
    and e: "e = (orders t ! i)\<lparr>deleted_at := Some now,
                  deleted_by := Some (or_default staff ''manager''),
                  original_status := status (orders t ! i),
                  status := Some ''deleted''\<rparr>"
    by (auto simp: binned_by_def split: op.splits option.splits)
  from findIndex_Some [OF i] have "orders t ! i \<in> set (orders t)"
    by simp
  with e show ?thesis by auto
qed

text \<open>
  C9. A soft delete of a known order appends one entry to the recycle bin: the order
  with \<^verbatim>\<open>deleted_at\<close> and \<^verbatim>\<open>deleted_by\<close> set, the status it had saved in
  \<^verbatim>\<open>original_status\<close>, and its \<^verbatim>\<open>status\<close> overwritten with the literal \<^verbatim>\<open>deleted\<close>, a
  fourth change besides the three metadata fields. No request changes an entry of the
  bin: after any further requests, every entry of the bin is an entry the bin had right
  after this soft delete, unchanged in every field, or the entry a later soft delete
  created, which again has status \<^verbatim>\<open>deleted\<close> and holds in \<^verbatim>\<open>original_status\<close> the
  status its order had in the order store at that moment. From the empty state, every
  entry of the bin is of the latter kind.
\<close>

theorem softDelete_overwrites_status:
  assumes "findIndex (\<lambda>x. order_number x = n) (orders s) = Some i"
  shows "\<exists>k s'. softDelete n staff now s = (Inr k, s') \<and>
           deleted_orders s' =
             deleted_orders s @
               [(orders s ! i)\<lparr>deleted_at := Some now,
                   deleted_by := Some (or_default staff ''manager''),
                   original_status := status (orders s ! i),
                   status := Some ''deleted''\<rparr>] \<and>
           order_number (last (deleted_orders s')) = n \<and>
           status (last (deleted_orders s')) = Some ''deleted'' \<and>
           original_status (last (deleted_orders s')) = status (orders s ! i) \<and>
           deleted_at (last (deleted_orders s')) = Some now \<and>
           deleted_by (last (deleted_orders s')) = Some (or_default staff ''manager'') \<and>
           (\<forall>ops. \<forall>e\<in>set (deleted_orders (run ops s')).
              e \<in> set (deleted_orders s') \<or>
              (\<exists>m<length ops. binned_by (ops ! m) (run (take m ops) s') e)) \<and>
           (\<forall>ops. \<forall>e\<in>set (deleted_orders (run ops empty_state)).
              \<exists>m<length ops. binned_by (ops ! m) (run (take m ops) empty_state) e) \<and>
           (\<forall>op t e. binned_by op t e \<longrightarrow>
              status e = Some ''deleted'' \<and>
              (\<exists>x\<in>set (orders t). order_number e = order_number x \<and>
                                   original_status e = status x))"
proof -
  let ?s' = "snd (softDelete n staff now s)"
  have n: "order_number (orders s ! i) = n"
    using findIndex_Some [OF assms(1)] by simp
  have r: "softDelete n staff now s = (Inr (length (deleted_orders s) + 1), ?s')"
    by (simp add: softDelete_found [OF assms(1)])
  have d: "deleted_orders ?s' = deleted_orders s @
             [(orders s ! i)\<lparr>deleted_at := Some now,
                 deleted_by := Some (or_default staff ''manager''),
                 original_status := status (orders s ! i),
                 status := Some ''deleted''\<rparr>]"
    by (simp add: softDelete_found [OF assms(1)])
  have fields: "order_number (last (deleted_orders ?s')) = n \<and>
           status (last (deleted_orders ?s')) = Some ''deleted'' \<and>
           original_status (last (deleted_orders ?s')) = status (orders s ! i) \<and>
           deleted_at (last (deleted_orders ?s')) = Some now \<and>
           deleted_by (last (deleted_orders ?s')) = Some (or_default staff ''manager'')"
    unfolding d using n by simp
  have later: "\<forall>ops. \<forall>e\<in>set (deleted_orders (run ops ?s')).
              e \<in> set (deleted_orders ?s') \<or>
              (\<exists>m<length ops. binned_by (ops ! m) (run (take m ops) ?s') e)"
    using run_bin by blast
  have init: "\<forall>ops. \<forall>e\<in>set (deleted_orders (run ops empty_state)).
              \<exists>m<length ops. binned_by (ops ! m) (run (take m ops) empty_state) e"
  proof (intro allI ballI)
    fix ops e
    assume "e \<in> set (deleted_orders (run ops empty_state))"
    with run_bin [of ops empty_state]
    have "e \<in> set (deleted_orders empty_state) \<or>
          (\<exists>m<length ops. binned_by (ops ! m) (run (take m ops) empty_state) e)"
      by blast
    then show "\<exists>m<length ops. binned_by (ops ! m) (run (take m ops) empty_state) e"
      by (simp add: empty_state_def)
  qed
  have made: "\<forall>op t e. binned_by op t e \<longrightarrow>
              status e = Some ''deleted'' \<and>
              (\<exists>x\<in>set (orders t). order_number e = order_number x \<and>
                                   original_status e = status x)"
    using binned_by_fields by blast
  from r d fields later init made show ?thesis by blast
qed

theorem softDelete_overwrites_status_witness:
  "findIndex (\<lambda>x. order_number x = ''WHS-001'') (orders promoted_state) = Some 0 \<and>
   status (orders promoted_state ! 0) = Some ''approved'' \<and>
   deleted_orders promoted_state = [] \<and>
   (\<exists>k s'. softDelete ''WHS-001'' (Some ''manager'') 9 promoted_state = (Inr k, s') \<and>
      status (last (deleted_orders s')) = Some ''deleted'' \<and>
      original_status (last (deleted_orders s')) = Some ''approved'' \<and>
      deleted_by (last (deleted_orders s')) = Some ''manager'' \<and>
      deleted_orders
        (run [OpCreate example_request 10, OpApprove ''WHS-001'' (Some ''staff5'') 11,
              OpPermanentlyDelete ''WHS-002'' None 12, OpAutoCleanup 13] s') =
        deleted_orders s')"
proof -
  have h1: "findIndex (\<lambda>x. order_number x = ''WHS-001'') (orders promoted_state) = Some 0"
    by code_simp
  have h2: "deleted_orders promoted_state = []"
    by code_simp
  have st: "status (orders promoted_state ! 0) = Some ''approved''"
    by code_simp
  have od: "or_default (Some ''manager'') ''manager'' = ''manager''"
    by code_simp
  let ?ops = "[OpCreate example_request 10, OpApprove ''WHS-001'' (Some ''staff5'') 11,
               OpPermanentlyDelete ''WHS-002'' None 12, OpAutoCleanup 13]"
  have none: "\<not> (\<exists>m<length ?ops. \<exists>t e. binned_by (?ops ! m) t e)"
  proof
    assume "\<exists>m<length ?ops. \<exists>t e. binned_by (?ops ! m) t e"
    then obtain m t e where m: "m < length ?ops" and c: "binned_by (?ops ! m) t e"
      by blast
    from c obtain n staff now where "?ops ! m = OpSoftDelete n staff now"
      using binned_by_softDelete by blast
    moreover from m have "?ops ! m \<in> set ?ops"
      by (rule nth_mem)
    ultimately show False by auto
  qed
  have len: "length (deleted_orders
               (run ?ops (snd (softDelete ''WHS-001'' (Some ''manager'') 9 promoted_state)))) = 1"
    by code_simp
  from softDelete_overwrites_status [OF h1, of "Some ''manager''" 9]
  obtain k s' where
    a: "softDelete ''WHS-001'' (Some ''manager'') 9 promoted_state = (Inr k, s')"
    and l: "deleted_orders s' =
             deleted_orders promoted_state @
               [(orders promoted_state ! 0)\<lparr>deleted_at := Some 9,
                   deleted_by := Some (or_default (Some ''manager'') ''manager''),
                   original_status := status (orders promoted_state ! 0),
                   status := Some ''deleted''\<rparr>]"
    and b: "status (last (deleted_orders s')) = Some ''deleted''"
    and c: "original_status (last (deleted_orders s')) = status (orders promoted_state ! 0)"
    and d: "deleted_by (last (deleted_orders s')) = Some (or_default (Some ''manager'') ''manager'')"
    and e: "\<forall>ops. \<forall>e\<in>set (deleted_orders (run ops s')).
              e \<in> set (deleted_orders s') \<or>
              (\<exists>m<length ops. binned_by (ops ! m) (run (take m ops) s') e)"
    by blast
  from a have s': "s' = snd (softDelete ''WHS-001'' (Some ''manager'') 9 promoted_state)"
    by simp
  from e none have sub: "set (deleted_orders (run ?ops s')) \<subseteq> set (deleted_orders s')"
    by blast
  from l h2 obtain x where one: "deleted_orders s' = [x]"
    by simp
  from len s' obtain y where "deleted_orders (run ?ops s') = [y]"
    by (cases "deleted_orders (run ?ops s')") auto
  with sub one have same: "deleted_orders (run ?ops s') = deleted_orders s'"
    by simp
  from a b c d st od same h1 h2 show ?thesis by auto
qed

end
